theory Spec2Isabelle
  imports Complex_Main "HOL-Library.Word" "HOL-Library.AList" "HOL-Library.Multiset"
begin

section \<open>Fee and config-cell utilities of the jetton test helpers\<close>

text \<open>
  A shallow embedding of the gas, storage and forwarding fee helpers: the record types, the
  fee formulas on \<open>bigint\<close> values, the traversal that sizes a tree of cells, and the
  readers and writers of the price records kept in the configuration dictionary.

  A \<open>bigint\<close> is an \<^typ>\<open>int\<close>. Its division \<open>/\<close> truncates towards zero and its
  remainder \<open>%\<close> takes the sign of the dividend, unlike \<open>div\<close> and \<open>mod\<close> of HOL, which
  round towards minus infinity; \<open>>>\<close> is an arithmetic shift.
\<close>

subsection \<open>Arithmetic on bigint\<close>

definition bigint_div :: "int \<Rightarrow> int \<Rightarrow> int" where
  "bigint_div a b = sgn a * sgn b * (\<bar>a\<bar> div \<bar>b\<bar>)"

definition bigint_rem :: "int \<Rightarrow> int \<Rightarrow> int" where
  "bigint_rem a b = sgn a * (\<bar>a\<bar> mod \<bar>b\<bar>)"

definition bigint_shr :: "int \<Rightarrow> nat \<Rightarrow> int" where
  "bigint_shr a n = drop_bit n a"

subsection \<open>Record types\<close>

record GasPrices =
  flat_gas_limit :: int
  flat_gas_price :: int
  gas_price :: int

record StorageValue =
  utime_sice :: int
  bit_price_ps :: int
  cell_price_ps :: int
  mc_bit_price_ps :: int
  mc_cell_price_ps :: int

record MsgPrices =
  lumpPrice :: int
  bitPrice :: int
  cellPrice :: int
  ihrPriceFactor :: int
  firstFrac :: int
  nextFrac :: int

record StorageStats =
  bits :: int
  cells :: int

record FullFees =
  total :: int
  res :: int
  remaining :: int

subsection \<open>Fee formulas\<close>

definition shr16ceil :: "int \<Rightarrow> int" where
  "shr16ceil src =
     (let rem = bigint_rem src 65536;
          res = bigint_div src 65536
      in if rem \<noteq> 0 then res + 1 else res)"

definition calcStorageFee :: "StorageValue \<Rightarrow> StorageStats \<Rightarrow> int \<Rightarrow> int" where
  "calcStorageFee prices stats duration =
     shr16ceil ((bits stats * bit_price_ps prices + cells stats * cell_price_ps prices) * duration)"

definition computeGasFee :: "GasPrices \<Rightarrow> int \<Rightarrow> int" where
  "computeGasFee prices gas =
     (if gas \<le> flat_gas_limit prices then flat_gas_price prices
      else flat_gas_price prices
             + bigint_div (gas_price prices * (gas - flat_gas_limit prices)) 65536)"

definition computeFwdFees :: "MsgPrices \<Rightarrow> int \<Rightarrow> int \<Rightarrow> int" where
  "computeFwdFees msgPrices ncells nbits =
     lumpPrice msgPrices + shr16ceil (bitPrice msgPrices * nbits + cellPrice msgPrices * ncells)"

definition computeFwdFeesVerbose :: "MsgPrices \<Rightarrow> int \<Rightarrow> int \<Rightarrow> FullFees" where
  "computeFwdFeesVerbose msgPrices ncells nbits =
     (let fees = computeFwdFees msgPrices ncells nbits;
          res = bigint_shr (fees * firstFrac msgPrices) 16
      in \<lparr>total = fees, res = res, remaining = fees - res\<rparr>)"

text \<open>The ceiling of \<open>x / 65536\<close> as the specification words it, on the reals.\<close>

definition ceil_shr16 :: "int \<Rightarrow> int" where
  "ceil_shr16 x = \<lceil>real_of_int x / 65536\<rceil>"

subsection \<open>Errors\<close>

text \<open>
  Every \<open>throw\<close> is a value. \<open>Error msg\<close> is an \<open>Error\<close> that the helpers construct
  themselves; \<open>TypeError\<close> is what the runtime raises at a member access on \<open>undefined\<close>
  (the postfix \<open>!\<close> of TypeScript is erased at compile time and checks nothing). The
  others are raised inside the SDK: a read or a skip past the end of a slice, a value that
  does not fit the width it is stored in, a builder filled beyond 1023 bits or 4 references,
  and an empty dictionary stored directly. \<open>TrieLayout\<close> marks the boundary of the model,
  see below.
\<close>

datatype error =
    Error string
  | TypeError
  | SliceUnderrun
  | ValueOutOfRange
  | BuilderOverflow
  | EmptyDictionary
  | TrieLayout

definition bindE :: "error + 'a \<Rightarrow> ('a \<Rightarrow> error + 'b) \<Rightarrow> error + 'b" where
  "bindE m f = (case m of Inl e \<Rightarrow> Inl e | Inr x \<Rightarrow> f x)"

subsection \<open>Cells, slices and builders\<close>

text \<open>
  A cell is a string of bits and a list of references to cells. The SDK keeps a dictionary
  in a cell as a binary trie; that layout is the SDK's own and is not modelled. A cell that
  holds a dictionary is written \<open>DictCell es\<close>, where \<open>es\<close> lists the entries by ascending
  key bits, each with the 32 key bits and the bits and references that the leaf holds for
  the value. Reading such a cell bit by bit, or reading an ordinary cell as a dictionary,
  depends on the trie layout and yields \<open>TrieLayout\<close>.
\<close>

datatype cell =
    Cell "bool list" "cell list"
  | DictCell "(32 word \<times> bool list \<times> cell list) list"

datatype slice =
    Slice "bool list" "cell list"
  | DictSlice "(32 word \<times> bool list \<times> cell list) list"

datatype builder = Builder "bool list" "cell list"

fun beginParse :: "cell \<Rightarrow> slice" where
  "beginParse (Cell bs rs) = Slice bs rs"
| "beginParse (DictCell es) = DictSlice es"

definition beginCell :: builder where
  "beginCell = Builder [] []"

fun endCell :: "builder \<Rightarrow> cell" where
  "endCell (Builder bs rs) = Cell bs rs"

text \<open>Unsigned integers are big-endian: the reader shifts the accumulator left bit by bit.\<close>

definition bits_to_int :: "bool list \<Rightarrow> int" where
  "bits_to_int bs = foldl (\<lambda>acc b. 2 * acc + (if b then 1 else 0)) 0 bs"

fun uint_bits :: "nat \<Rightarrow> int \<Rightarrow> bool list" where
  "uint_bits 0 v = []"
| "uint_bits (Suc n) v = uint_bits n (v div 2) @ [odd v]"

fun preloadUintBig :: "slice \<Rightarrow> nat \<Rightarrow> error + int" where
  "preloadUintBig (Slice bs rs) n =
     (if length bs < n then Inl SliceUnderrun else Inr (bits_to_int (take n bs)))"
| "preloadUintBig (DictSlice es) n = Inl TrieLayout"

fun loadUintBig :: "slice \<Rightarrow> nat \<Rightarrow> error + (int \<times> slice)" where
  "loadUintBig (Slice bs rs) n =
     (if length bs < n then Inl SliceUnderrun
      else Inr (bits_to_int (take n bs), Slice (drop n bs) rs))"
| "loadUintBig (DictSlice es) n = Inl TrieLayout"

text \<open>\<open>loadUint\<close> is \<open>Number (loadUintBig n)\<close>, exact for the widths of 8 and 32 bits read here.\<close>

definition loadUint :: "slice \<Rightarrow> nat \<Rightarrow> error + (int \<times> slice)" where
  "loadUint s n = loadUintBig s n"

fun skip :: "slice \<Rightarrow> nat \<Rightarrow> error + slice" where
  "skip (Slice bs rs) n =
     (if length bs < n then Inl SliceUnderrun else Inr (Slice (drop n bs) rs))"
| "skip (DictSlice es) n = Inl TrieLayout"

fun loadRef :: "slice \<Rightarrow> error + (cell \<times> slice)" where
  "loadRef (Slice bs []) = Inl SliceUnderrun"
| "loadRef (Slice bs (r # rs)) = Inr (r, Slice bs rs)"
| "loadRef (DictSlice es) = Inl TrieLayout"

fun storeUint :: "builder \<Rightarrow> int \<Rightarrow> nat \<Rightarrow> error + builder" where
  "storeUint (Builder bs rs) v n =
     (if v < 0 \<or> 2 ^ n \<le> v then Inl ValueOutOfRange
      else if 1023 < length bs + n then Inl BuilderOverflow
      else Inr (Builder (bs @ uint_bits n v) rs))"

fun storeRef :: "builder \<Rightarrow> cell \<Rightarrow> error + builder" where
  "storeRef (Builder bs rs) c =
     (if 4 \<le> length rs then Inl BuilderOverflow else Inr (Builder bs (rs @ [c])))"

fun storeSlice :: "builder \<Rightarrow> slice \<Rightarrow> error + builder" where
  "storeSlice (Builder bs rs) (Slice sbs srs) =
     (if 1023 < length bs + length sbs then Inl BuilderOverflow
      else if 4 < length rs + length srs then Inl BuilderOverflow
      else Inr (Builder (bs @ sbs) (rs @ srs)))"
| "storeSlice (Builder bs rs) (DictSlice es) = Inl TrieLayout"

subsection \<open>Dictionaries\<close>

text \<open>
  A \<open>Dictionary\<close> object wraps a \<open>Map\<close>, which keeps its keys in insertion order: \<open>set\<close>
  replaces the value of a key in place and appends a new key at the end, \<open>values\<close> lists
  the values in that order. Parsing a dictionary cell inserts the entries by ascending key
  bits, and serialising sorts them by key bits again.
\<close>

type_synonym 'v dictionary = "(int \<times> 'v) list"

definition Dictionary_get :: "'v dictionary \<Rightarrow> int \<Rightarrow> 'v option" where
  "Dictionary_get d k = map_of d k"

definition Dictionary_set :: "'v dictionary \<Rightarrow> int \<Rightarrow> 'v \<Rightarrow> 'v dictionary" where
  "Dictionary_set d k v = AList.update k v d"

definition Dictionary_values :: "'v dictionary \<Rightarrow> 'v list" where
  "Dictionary_values d = map snd d"

text \<open>The key codecs \<open>Dictionary.Keys.Int(32)\<close> and \<open>Dictionary.Keys.Uint(32)\<close>.\<close>

definition Keys_Int32_serialize :: "int \<Rightarrow> error + 32 word" where
  "Keys_Int32_serialize k =
     (if k < - (2 ^ 31) \<or> 2 ^ 31 \<le> k then Inl ValueOutOfRange else Inr (word_of_int k))"

definition Keys_Int32_parse :: "32 word \<Rightarrow> int" where
  "Keys_Int32_parse w = sint w"

definition Keys_Uint32_serialize :: "int \<Rightarrow> error + 32 word" where
  "Keys_Uint32_serialize k =
     (if k < 0 \<or> 2 ^ 32 \<le> k then Inl ValueOutOfRange else Inr (word_of_int k))"

definition Keys_Uint32_parse :: "32 word \<Rightarrow> int" where
  "Keys_Uint32_parse w = uint w"

text \<open>The value codec \<open>Dictionary.Values.Cell()\<close>: the leaf holds one reference.\<close>

definition Values_Cell_serialize :: "cell \<Rightarrow> builder \<Rightarrow> error + builder" where
  "Values_Cell_serialize src b = storeRef b src"

definition Values_Cell_parse :: "slice \<Rightarrow> error + cell" where
  "Values_Cell_parse src = bindE (loadRef src) (\<lambda>(c, s). Inr c)"

fun parse_entries ::
  "(32 word \<Rightarrow> int) \<Rightarrow> (slice \<Rightarrow> error + 'v) \<Rightarrow> (32 word \<times> bool list \<times> cell list) list
     \<Rightarrow> error + 'v dictionary" where
  "parse_entries kp vp [] = Inr []"
| "parse_entries kp vp ((k, bs, rs) # es) =
     bindE (vp (Slice bs rs)) (\<lambda>v.
     bindE (parse_entries kp vp es) (\<lambda>d. Inr ((kp k, v) # d)))"

fun loadDictDirect ::
  "slice \<Rightarrow> (32 word \<Rightarrow> int) \<Rightarrow> (slice \<Rightarrow> error + 'v) \<Rightarrow> error + 'v dictionary" where
  "loadDictDirect (DictSlice es) kp vp = parse_entries kp vp es"
| "loadDictDirect (Slice bs rs) kp vp = Inl TrieLayout"

text \<open>
  \<open>Dictionary.loadDirect (key, value, sc)\<close> starts with \<open>if (!sc) return Dictionary.empty\<close>:
  an \<open>undefined\<close> cell is an empty dictionary, not an error.
\<close>

fun Dictionary_loadDirect ::
  "(32 word \<Rightarrow> int) \<Rightarrow> (slice \<Rightarrow> error + 'v) \<Rightarrow> cell option \<Rightarrow> error + 'v dictionary" where
  "Dictionary_loadDirect kp vp None = Inr []"
| "Dictionary_loadDirect kp vp (Some c) = loadDictDirect (beginParse c) kp vp"

fun serialize_entries ::
  "(int \<Rightarrow> error + 32 word) \<Rightarrow> ('v \<Rightarrow> builder \<Rightarrow> error + builder) \<Rightarrow> 'v dictionary
     \<Rightarrow> error + (32 word \<times> bool list \<times> cell list) list" where
  "serialize_entries ks vs [] = Inr []"
| "serialize_entries ks vs ((k, v) # d) =
     bindE (ks k) (\<lambda>kw.
     bindE (vs v beginCell) (\<lambda>b.
     bindE (serialize_entries ks vs d) (\<lambda>es.
       case b of Builder bs rs \<Rightarrow> Inr ((kw, bs, rs) # es))))"

text \<open>\<open>beginCell().storeDictDirect(d).endCell()\<close>: the cell that holds the dictionary \<open>d\<close>.\<close>

definition storeDictDirect ::
  "(int \<Rightarrow> error + 32 word) \<Rightarrow> ('v \<Rightarrow> builder \<Rightarrow> error + builder) \<Rightarrow> 'v dictionary
     \<Rightarrow> error + cell" where
  "storeDictDirect ks vs d =
     (if d = [] then Inl EmptyDictionary
      else bindE (serialize_entries ks vs d) (\<lambda>es.
             Inr (DictCell (sort_key (\<lambda>e. uint (fst e)) es))))"

text \<open>The configuration dictionary: keys are signed 32-bit integers, values are cells.\<close>

definition loadConfig :: "cell \<Rightarrow> error + cell dictionary" where
  "loadConfig configRaw = loadDictDirect (beginParse configRaw) Keys_Int32_parse Values_Cell_parse"

definition storeConfig :: "cell dictionary \<Rightarrow> error + cell" where
  "storeConfig config = storeDictDirect Keys_Int32_serialize Values_Cell_serialize config"

subsection \<open>Sizing a tree of cells\<close>

text \<open>
  \<open>cell.hash().toString()\<close> is a function of the cell's content; it is the parameter
  \<open>hash\<close>. The array \<open>visited\<close> is mutated in place and shared by the whole traversal,
  so every call returns it with the statistics; \<open>collectRefs\<close> is the \<open>for\<close> loop over the
  references, which carries \<open>bits\<close>, \<open>cells\<close> and \<open>visited\<close>. The bits and references
  of a dictionary cell belong to the trie layout: such a cell is traversed as one with
  neither, and \<open>plain\<close> holds of the trees that have none.
\<close>

fun collectCellStats ::
  "(cell \<Rightarrow> string) \<Rightarrow> cell \<Rightarrow> string list \<Rightarrow> bool \<Rightarrow> StorageStats \<times> string list"
and collectRefs ::
  "(cell \<Rightarrow> string) \<Rightarrow> cell list \<Rightarrow> string list \<Rightarrow> int \<Rightarrow> int \<Rightarrow> (int \<times> int) \<times> string list"
where
  "collectCellStats hash (Cell bs rs) visited skipRoot =
     (let bits0 = (if skipRoot then 0 else int (length bs));
          cells0 = (if skipRoot then 0 else 1);
          h = hash (Cell bs rs)
      in if h \<in> set visited then (\<lparr>bits = 0, cells = 0\<rparr>, visited)
         else case collectRefs hash rs (visited @ [h]) bits0 cells0 of
                ((b, c), visited') \<Rightarrow> (\<lparr>bits = b, cells = c\<rparr>, visited'))"
| "collectCellStats hash (DictCell es) visited skipRoot =
     (let bits0 = 0;
          cells0 = (if skipRoot then 0 else 1);
          h = hash (DictCell es)
      in if h \<in> set visited then (\<lparr>bits = 0, cells = 0\<rparr>, visited)
         else (\<lparr>bits = bits0, cells = cells0\<rparr>, visited @ [h]))"
| "collectRefs hash [] visited b c = ((b, c), visited)"
| "collectRefs hash (ref # refs) visited b c =
     (case collectCellStats hash ref visited False of
        (r, visited') \<Rightarrow> collectRefs hash refs visited' (b + bits r) (c + cells r))"

fun plain :: "cell \<Rightarrow> bool" where
  "plain (Cell bs rs) = list_all plain rs"
| "plain (DictCell es) = False"

text \<open>The cells of a tree: the root and everything below it.\<close>

fun subcells :: "cell \<Rightarrow> cell set" where
  "subcells (Cell bs rs) = insert (Cell bs rs) (\<Union> (set (map subcells rs)))"
| "subcells (DictCell es) = {DictCell es}"

fun bit_length :: "cell \<Rightarrow> int" where
  "bit_length (Cell bs rs) = int (length bs)"
| "bit_length (DictCell es) = 0"

text \<open>
  For the proofs: the cells of a set that \<open>visited\<close> does not hold yet, and the invariant
  of the traversal, that every visited cell up to a given size has its whole subtree visited
  (the cells above, whose references are still being traversed, are larger).
\<close>

definition unseen :: "(cell \<Rightarrow> string) \<Rightarrow> string list \<Rightarrow> cell set \<Rightarrow> cell set" where
  "unseen hash visited S = {d \<in> S. hash d \<notin> set visited}"

definition settled :: "(cell \<Rightarrow> string) \<Rightarrow> cell set \<Rightarrow> string list \<Rightarrow> nat \<Rightarrow> bool" where
  "settled hash U visited n =
     (\<forall>d \<in> U. hash d \<in> set visited \<and> size d \<le> n \<longrightarrow> hash ` subcells d \<subseteq> set visited)"

text \<open>
  What one call returns: the bits and cells of the cells of the subtree that were unseen
  (without the root's own when \<open>skipRoot\<close> is set), and \<open>visited\<close> extended by the subtree.
\<close>

definition counts_unseen ::
  "(cell \<Rightarrow> string) \<Rightarrow> cell \<Rightarrow> string list \<Rightarrow> bool \<Rightarrow> StorageStats \<times> string list \<Rightarrow> bool" where
  "counts_unseen hash c visited skipRoot result =
     (let new = unseen hash visited (subcells c);
          own = skipRoot \<and> hash c \<notin> set visited
      in fst result = \<lparr>bits = (\<Sum>d \<in> new. bit_length d) - (if own then bit_length c else 0),
                       cells = int (card new) - (if own then 1 else 0)\<rparr>
         \<and> set (snd result) = set visited \<union> hash ` subcells c)"

subsection \<open>Gas prices\<close>

definition getGasPrices :: "cell \<Rightarrow> int \<Rightarrow> error + GasPrices" where
  "getGasPrices configRaw workchain =
     bindE (loadConfig configRaw) (\<lambda>config.
     bindE (case Dictionary_get config (21 + workchain) of
              None \<Rightarrow> Inl TypeError
            | Some c \<Rightarrow> Inr (beginParse c)) (\<lambda>ds.
     bindE (loadUint ds 8) (\<lambda>(tag1, ds).
       if tag1 \<noteq> 0xd1 then Inl (Error ''Invalid flat gas prices tag!'')
       else
     bindE (loadUintBig ds 64) (\<lambda>(flat_gas_limit, ds).
     bindE (loadUintBig ds 64) (\<lambda>(flat_gas_price, ds).
     bindE (loadUint ds 8) (\<lambda>(tag2, ds).
       if tag2 \<noteq> 0xde then Inl (Error ''Invalid gas prices tag!'')
       else
     bindE (preloadUintBig ds 64) (\<lambda>gas_price.
       Inr \<lparr>flat_gas_limit = flat_gas_limit,
            flat_gas_price = flat_gas_price,
            gas_price = gas_price\<rparr>)))))))"

definition setGasPrice :: "cell \<Rightarrow> GasPrices \<Rightarrow> int \<Rightarrow> error + cell" where
  "setGasPrice configRaw prices workchain =
     bindE (loadConfig configRaw) (\<lambda>config.
     let idx = 21 + workchain in
     bindE (case Dictionary_get config idx of
              None \<Rightarrow> Inl TypeError
            | Some ds \<Rightarrow> Inr ds) (\<lambda>ds.
     bindE (skip (beginParse ds) (8 + 64 + 64 + 8 + 64)) (\<lambda>tail.
     bindE (storeUint beginCell 0xd1 8) (\<lambda>b.
     bindE (storeUint b (flat_gas_limit prices) 64) (\<lambda>b.
     bindE (storeUint b (flat_gas_price prices) 64) (\<lambda>b.
     bindE (storeUint b 0xde 8) (\<lambda>b.
     bindE (storeUint b (gas_price prices) 64) (\<lambda>b.
     bindE (storeSlice b tail) (\<lambda>b.
     let newPrices = endCell b in
     storeConfig (Dictionary_set config idx newPrices))))))))))"

subsection \<open>Storage prices\<close>

definition storageValue_serialize :: "StorageValue \<Rightarrow> builder \<Rightarrow> error + builder" where
  "storageValue_serialize src builder =
     bindE (storeUint builder 0xcc 8) (\<lambda>b.
     bindE (storeUint b (utime_sice src) 32) (\<lambda>b.
     bindE (storeUint b (bit_price_ps src) 64) (\<lambda>b.
     bindE (storeUint b (cell_price_ps src) 64) (\<lambda>b.
     bindE (storeUint b (mc_bit_price_ps src) 64) (\<lambda>b.
            storeUint b (mc_cell_price_ps src) 64)))))"

definition storageValue_parse :: "slice \<Rightarrow> error + StorageValue" where
  "storageValue_parse src =
     bindE (skip src 8) (\<lambda>src.
     bindE (loadUint src 32) (\<lambda>(utime_sice, src).
     bindE (loadUintBig src 64) (\<lambda>(bit_price_ps, src).
     bindE (loadUintBig src 64) (\<lambda>(cell_price_ps, src).
     bindE (loadUintBig src 64) (\<lambda>(mc_bit_price_ps, src).
     bindE (loadUintBig src 64) (\<lambda>(mc_cell_price_ps, src).
       Inr \<lparr>utime_sice = utime_sice,
            bit_price_ps = bit_price_ps,
            cell_price_ps = cell_price_ps,
            mc_bit_price_ps = mc_bit_price_ps,
            mc_cell_price_ps = mc_cell_price_ps\<rparr>))))))"

text \<open>An array read outside its bounds is \<open>undefined\<close>, here \<open>None\<close>.\<close>

definition array_at :: "'a list \<Rightarrow> int \<Rightarrow> 'a option" where
  "array_at xs i = (if 0 \<le> i \<and> i < int (length xs) then Some (xs ! nat i) else None)"

definition getStoragePrices :: "cell \<Rightarrow> error + StorageValue option" where
  "getStoragePrices configRaw =
     bindE (loadConfig configRaw) (\<lambda>config.
     bindE (Dictionary_loadDirect Keys_Uint32_parse storageValue_parse
              (Dictionary_get config 18)) (\<lambda>storageData.
     let values = Dictionary_values storageData in
     Inr (array_at values (int (length values) - 1))))"

definition setStoragePrices :: "cell \<Rightarrow> StorageValue \<Rightarrow> error + cell" where
  "setStoragePrices configRaw prices =
     bindE (loadConfig configRaw) (\<lambda>config.
     bindE (Dictionary_loadDirect Keys_Uint32_parse storageValue_parse
              (Dictionary_get config 18)) (\<lambda>storageData.
     let storageData' =
           Dictionary_set storageData (int (length (Dictionary_values storageData)) - 1) prices in
     bindE (storeDictDirect Keys_Uint32_serialize storageValue_serialize storageData') (\<lambda>inner.
     storeConfig (Dictionary_set config 18 inner))))"

subsection \<open>Message prices\<close>

definition configParseMsgPrices :: "slice \<Rightarrow> error + MsgPrices" where
  "configParseMsgPrices sc =
     bindE (loadUint sc 8) (\<lambda>(magic, sc).
       if magic \<noteq> 0xea then Inl (Error ''Invalid message prices magic number!'')
       else
     bindE (loadUintBig sc 64) (\<lambda>(lumpPrice, sc).
     bindE (loadUintBig sc 64) (\<lambda>(bitPrice, sc).
     bindE (loadUintBig sc 64) (\<lambda>(cellPrice, sc).
     bindE (loadUintBig sc 32) (\<lambda>(ihrPriceFactor, sc).
     bindE (loadUintBig sc 16) (\<lambda>(firstFrac, sc).
     bindE (loadUintBig sc 16) (\<lambda>(nextFrac, sc).
       Inr \<lparr>lumpPrice = lumpPrice,
            bitPrice = bitPrice,
            cellPrice = cellPrice,
            ihrPriceFactor = ihrPriceFactor,
            firstFrac = firstFrac,
            nextFrac = nextFrac\<rparr>)))))))"

definition setMsgPrices :: "cell \<Rightarrow> MsgPrices \<Rightarrow> int \<Rightarrow> error + cell" where
  "setMsgPrices configRaw prices workchain =
     bindE (loadConfig configRaw) (\<lambda>config.
     bindE (storeUint beginCell 0xea 8) (\<lambda>b.
     bindE (storeUint b (lumpPrice prices) 64) (\<lambda>b.
     bindE (storeUint b (bitPrice prices) 64) (\<lambda>b.
     bindE (storeUint b (cellPrice prices) 64) (\<lambda>b.
     bindE (storeUint b (ihrPriceFactor prices) 32) (\<lambda>b.
     bindE (storeUint b (firstFrac prices) 16) (\<lambda>b.
     bindE (storeUint b (nextFrac prices) 16) (\<lambda>b.
     let priceCell = endCell b in
     storeConfig (Dictionary_set config (25 + workchain) priceCell)))))))))"

definition getMsgPrices :: "cell \<Rightarrow> int \<Rightarrow> error + MsgPrices" where
  "getMsgPrices configRaw workchain =
     bindE (loadConfig configRaw) (\<lambda>config.
     case Dictionary_get config (25 + workchain) of
       None \<Rightarrow> Inl (Error ''No prices defined in config'')
     | Some prices \<Rightarrow> configParseMsgPrices (beginParse prices))"

subsection \<open>Value ranges and record layouts\<close>

text \<open>
  The ranges that the writers accept, and the bit strings that they produce: helpers for
  stating the properties below.
\<close>

definition int32 :: "int \<Rightarrow> bool" where
  "int32 k = (- (2 ^ 31) \<le> k \<and> k < 2 ^ 31)"

definition uint64 :: "int \<Rightarrow> bool" where
  "uint64 v = (0 \<le> v \<and> v < 2 ^ 64)"

definition valid_GasPrices :: "GasPrices \<Rightarrow> bool" where
  "valid_GasPrices p =
     (uint64 (flat_gas_limit p) \<and> uint64 (flat_gas_price p) \<and> uint64 (gas_price p))"

definition valid_StorageValue :: "StorageValue \<Rightarrow> bool" where
  "valid_StorageValue p =
     (0 \<le> utime_sice p \<and> utime_sice p < 2 ^ 32
      \<and> uint64 (bit_price_ps p) \<and> uint64 (cell_price_ps p)
      \<and> uint64 (mc_bit_price_ps p) \<and> uint64 (mc_cell_price_ps p))"

definition valid_MsgPrices :: "MsgPrices \<Rightarrow> bool" where
  "valid_MsgPrices p =
     (uint64 (lumpPrice p) \<and> uint64 (bitPrice p) \<and> uint64 (cellPrice p)
      \<and> 0 \<le> ihrPriceFactor p \<and> ihrPriceFactor p < 2 ^ 32
      \<and> 0 \<le> firstFrac p \<and> firstFrac p < 2 ^ 16
      \<and> 0 \<le> nextFrac p \<and> nextFrac p < 2 ^ 16)"

definition gas_record_bits :: "GasPrices \<Rightarrow> bool list" where
  "gas_record_bits p =
     uint_bits 8 0xd1 @ uint_bits 64 (flat_gas_limit p) @ uint_bits 64 (flat_gas_price p)
       @ uint_bits 8 0xde @ uint_bits 64 (gas_price p)"

definition storage_record_bits :: "int \<Rightarrow> StorageValue \<Rightarrow> bool list" where
  "storage_record_bits tag p =
     uint_bits 8 tag @ uint_bits 32 (utime_sice p) @ uint_bits 64 (bit_price_ps p)
       @ uint_bits 64 (cell_price_ps p) @ uint_bits 64 (mc_bit_price_ps p)
       @ uint_bits 64 (mc_cell_price_ps p)"

definition msg_record_bits :: "MsgPrices \<Rightarrow> bool list" where
  "msg_record_bits p =
     uint_bits 8 0xea @ uint_bits 64 (lumpPrice p) @ uint_bits 64 (bitPrice p)
       @ uint_bits 64 (cellPrice p) @ uint_bits 32 (ihrPriceFactor p)
       @ uint_bits 16 (firstFrac p) @ uint_bits 16 (nextFrac p)"

subsection \<open>Sample configurations\<close>

text \<open>
  A configuration with gas prices at the keys 20 and 21 and nothing else, where the record
  is followed by three more bits and one reference; and one whose key 18 holds a storage
  price dictionary with the single key 5.
\<close>

definition sample_gas_prices :: GasPrices where
  "sample_gas_prices = \<lparr>flat_gas_limit = 100, flat_gas_price = 40000, gas_price = 26214400\<rparr>"

definition sample_msg_prices :: MsgPrices where
  "sample_msg_prices =
     \<lparr>lumpPrice = 400000, bitPrice = 26214400, cellPrice = 2621440000,
      ihrPriceFactor = 98304, firstFrac = 21845, nextFrac = 21845\<rparr>"

definition example_gas_record :: cell where
  "example_gas_record =
     Cell (gas_record_bits sample_gas_prices @ [True, False, True]) [Cell [True] []]"

definition example_config :: cell where
  "example_config =
     DictCell [(20, [], [example_gas_record]), (21, [], [example_gas_record])]"

definition old_prices :: StorageValue where
  "old_prices = \<lparr>utime_sice = 10, bit_price_ps = 1, cell_price_ps = 500,
                 mc_bit_price_ps = 1000, mc_cell_price_ps = 500000\<rparr>"

definition new_prices :: StorageValue where
  "new_prices = \<lparr>utime_sice = 20, bit_price_ps = 2, cell_price_ps = 600,
                 mc_bit_price_ps = 2000, mc_cell_price_ps = 600000\<rparr>"

definition config_key5 :: cell where
  "config_key5 = DictCell [(18, [], [DictCell [(5, storage_record_bits 0xcc old_prices, [])]])]"

text \<open>
  A tree in which one subtree hangs below two branches, and a hash that tells its cells
  apart: their bits as text.
\<close>

definition bits_text :: "cell \<Rightarrow> string" where
  "bits_text c =
     (case c of Cell bs rs \<Rightarrow> map (\<lambda>b. if b then CHR ''1'' else CHR ''0'') bs
      | DictCell es \<Rightarrow> ''dictionary'')"

definition shared_subtree :: cell where
  "shared_subtree = Cell [True, True] [Cell [False, False, False] []]"

definition left_branch :: cell where
  "left_branch = Cell [True] [shared_subtree]"

definition right_branch :: cell where
  "right_branch = Cell [False] [shared_subtree, Cell [False, False, False] []]"

section \<open>Properties\<close>

subsection \<open>Division, remainder and rounding\<close>

lemma bigint_div_nonneg: "0 \<le> a \<Longrightarrow> bigint_div a 65536 = a div 65536"
  by (cases "a = 0") (simp_all add: bigint_div_def)

lemma bigint_div_neg: "a < 0 \<Longrightarrow> bigint_div a 65536 = - ((- a) div 65536)"
  by (simp add: bigint_div_def)

lemma bigint_rem_nonneg: "0 \<le> a \<Longrightarrow> bigint_rem a 65536 = a mod 65536"
  by (cases "a = 0") (simp_all add: bigint_rem_def)

lemma bigint_div_mult_cancel: "bigint_div (a * 65536) 65536 = a"
  by (simp add: bigint_div_def abs_mult sgn_mult mult_sgn_abs)

lemma shr16ceil_nonneg:
  "0 \<le> x \<Longrightarrow> shr16ceil x = x div 65536 + (if x mod 65536 \<noteq> 0 then 1 else 0)"
  by (simp add: shr16ceil_def Let_def bigint_div_nonneg bigint_rem_nonneg)

lemma ceil_shr16_eq: "ceil_shr16 x = - ((- x) div 65536)"
  unfolding ceil_shr16_def by (metis ceiling_divide_eq_div of_int_numeral)

lemma ceil_shr16_floor:
  "ceil_shr16 x = x div 65536 + (if x mod 65536 \<noteq> 0 then 1 else 0)"
  by (simp add: ceil_shr16_eq zdiv_zminus1_eq_if)

lemma shr16ceil_nonneg_result: "0 \<le> x \<Longrightarrow> 0 \<le> shr16ceil x"
  by (simp add: shr16ceil_nonneg pos_imp_zdiv_nonneg_iff)

subsection \<open>Gas fee\<close>

text \<open>
  C1. \<open>computeGasFee p g\<close> is \<open>flat_gas_price\<close> when \<open>g \<le> flat_gas_limit\<close>; above the
  limit it adds the quotient of \<open>gas_price * (g - flat_gas_limit)\<close> by 65536, truncated
  towards zero (the floor of a non-negative product, minus the floor of the negated product
  otherwise). At the limit the fee is \<open>flat_gas_price\<close>, and 65536 units above it the fee
  is \<open>flat_gas_price + gas_price\<close>.
\<close>

theorem computeGasFee_formula:
  "computeGasFee p g =
     (if g \<le> flat_gas_limit p then flat_gas_price p
      else if 0 \<le> gas_price p * (g - flat_gas_limit p)
        then flat_gas_price p + (gas_price p * (g - flat_gas_limit p)) div 65536
        else flat_gas_price p - (- (gas_price p * (g - flat_gas_limit p))) div 65536)
   \<and> computeGasFee p (flat_gas_limit p) = flat_gas_price p
   \<and> computeGasFee p (flat_gas_limit p + 65536) = flat_gas_price p + gas_price p"
proof (intro conjI)
  show "computeGasFee p g =
     (if g \<le> flat_gas_limit p then flat_gas_price p
      else if 0 \<le> gas_price p * (g - flat_gas_limit p)
        then flat_gas_price p + (gas_price p * (g - flat_gas_limit p)) div 65536
        else flat_gas_price p - (- (gas_price p * (g - flat_gas_limit p))) div 65536)"
    by (simp add: computeGasFee_def bigint_div_nonneg bigint_div_neg)
  show "computeGasFee p (flat_gas_limit p) = flat_gas_price p"
    by (simp add: computeGasFee_def)
  show "computeGasFee p (flat_gas_limit p + 65536) = flat_gas_price p + gas_price p"
    by (simp add: computeGasFee_def bigint_div_mult_cancel)
qed

subsection \<open>Storage fee\<close>

text \<open>
  C2, as stated, fails for a negative price: with \<open>bit_price_ps = -1\<close>, one bit and one
  second the product is \<open>-1\<close>, the truncated quotient is 0, the remainder is \<open>-1\<close>, so the
  fee is 1, while the ceiling of \<open>-1 / 65536\<close> is 0.
\<close>

theorem calcStorageFee_negative_price:
  "0 \<le> bits \<lparr>bits = 1, cells = 0\<rparr> \<and> 0 \<le> cells \<lparr>bits = 1, cells = 0\<rparr> \<and> (0::int) \<le> 1
   \<and> calcStorageFee
        \<lparr>utime_sice = 0, bit_price_ps = - 1, cell_price_ps = 0,
         mc_bit_price_ps = 0, mc_cell_price_ps = 0\<rparr> \<lparr>bits = 1, cells = 0\<rparr> 1 = 1
   \<and> ceil_shr16 ((1 * (- 1) + 0 * 0) * 1) = 0
   \<and> calcStorageFee
        \<lparr>utime_sice = 0, bit_price_ps = - 1, cell_price_ps = 0,
         mc_bit_price_ps = 0, mc_cell_price_ps = 0\<rparr> \<lparr>bits = 1, cells = 0\<rparr> 1
       \<noteq> ceil_shr16 ((1 * (- 1) + 0 * 0) * 1)"
  by (simp add: calcStorageFee_def shr16ceil_def bigint_rem_def bigint_div_def ceil_shr16_eq)

text \<open>
  C2, amended. For non-negative bit and cell prices, non-negative \<open>bits\<close> and \<open>cells\<close>
  and a non-negative duration, \<open>calcStorageFee\<close> is the ceiling of
  \<open>((bits * bit_price_ps + cells * cell_price_ps) * duration) / 65536\<close>, which is the
  truncated quotient plus 1 when the remainder is not zero; for the duration 0 the fee is 0.
\<close>

theorem calcStorageFee_ceiling:
  assumes "0 \<le> bit_price_ps p" and "0 \<le> cell_price_ps p"
    and "0 \<le> bits s" and "0 \<le> cells s" and "0 \<le> d"
  shows "calcStorageFee p s d
           = ceil_shr16 ((bits s * bit_price_ps p + cells s * cell_price_ps p) * d)
       \<and> calcStorageFee p s d
           = ((bits s * bit_price_ps p + cells s * cell_price_ps p) * d) div 65536
             + (if ((bits s * bit_price_ps p + cells s * cell_price_ps p) * d) mod 65536 \<noteq> 0
                then 1 else 0)
       \<and> calcStorageFee p s 0 = 0"
proof -
  let ?x = "(bits s * bit_price_ps p + cells s * cell_price_ps p) * d"
  from assms have nonneg: "0 \<le> ?x" by simp
  have fee: "calcStorageFee p s d = ?x div 65536 + (if ?x mod 65536 \<noteq> 0 then 1 else 0)"
    unfolding calcStorageFee_def by (rule shr16ceil_nonneg [OF nonneg])
  have zero: "calcStorageFee p s 0 = 0"
    by (simp add: calcStorageFee_def shr16ceil_def bigint_rem_def bigint_div_def)
  from fee zero show ?thesis by (simp only: ceil_shr16_floor simp_thms)
qed

theorem calcStorageFee_ceiling_witness:
  "0 \<le> bit_price_ps old_prices \<and> 0 \<le> cell_price_ps old_prices
   \<and> 0 \<le> bits \<lparr>bits = 1000, cells = 5\<rparr> \<and> 0 \<le> cells \<lparr>bits = 1000, cells = 5\<rparr>
   \<and> (0::int) \<le> 3600
   \<and> calcStorageFee old_prices \<lparr>bits = 1000, cells = 5\<rparr> 3600 = ceil_shr16 12600000
   \<and> calcStorageFee old_prices \<lparr>bits = 1000, cells = 5\<rparr> 3600 = 193
   \<and> calcStorageFee old_prices \<lparr>bits = 1000, cells = 5\<rparr> 0 = 0"
proof -
  have prices: "0 \<le> bit_price_ps old_prices" "0 \<le> cell_price_ps old_prices"
    by (simp_all add: old_prices_def)
  have stats: "0 \<le> bits \<lparr>bits = 1000, cells = 5\<rparr>" "0 \<le> cells \<lparr>bits = 1000, cells = 5\<rparr>"
    by simp_all
  have duration: "(0::int) \<le> 3600" by simp
  have product: "(bits \<lparr>bits = 1000, cells = 5\<rparr> * bit_price_ps old_prices
                   + cells \<lparr>bits = 1000, cells = 5\<rparr> * cell_price_ps old_prices) * 3600 = 12600000"
    by (simp add: old_prices_def)
  from calcStorageFee_ceiling [OF prices stats duration]
  have "calcStorageFee old_prices \<lparr>bits = 1000, cells = 5\<rparr> 3600 = ceil_shr16 12600000"
    and "calcStorageFee old_prices \<lparr>bits = 1000, cells = 5\<rparr> 3600
           = 12600000 div 65536 + (if (12600000::int) mod 65536 \<noteq> 0 then 1 else 0)"
    and "calcStorageFee old_prices \<lparr>bits = 1000, cells = 5\<rparr> 0 = 0"
    unfolding product by blast+
  with prices stats show ?thesis by simp
qed

subsection \<open>Forwarding fee\<close>

text \<open>
  C10, as stated, fails for a negative \<open>firstFrac\<close>, which is below \<open>2 ^ 16\<close>: with
  \<open>lumpPrice = 1\<close> and \<open>firstFrac = -1\<close> the total is 1 and the share is \<open>-1\<close>.
\<close>

theorem computeFwdFeesVerbose_negative_frac:
  "firstFrac \<lparr>lumpPrice = 1, bitPrice = 0, cellPrice = 0, ihrPriceFactor = 0,
              firstFrac = - 1, nextFrac = 0\<rparr> < 2 ^ 16
   \<and> res (computeFwdFeesVerbose
            \<lparr>lumpPrice = 1, bitPrice = 0, cellPrice = 0, ihrPriceFactor = 0,
             firstFrac = - 1, nextFrac = 0\<rparr> 0 0) = - 1
   \<and> total (computeFwdFeesVerbose
            \<lparr>lumpPrice = 1, bitPrice = 0, cellPrice = 0, ihrPriceFactor = 0,
             firstFrac = - 1, nextFrac = 0\<rparr> 0 0) = 1
   \<and> \<not> 0 \<le> res (computeFwdFeesVerbose
            \<lparr>lumpPrice = 1, bitPrice = 0, cellPrice = 0, ihrPriceFactor = 0,
             firstFrac = - 1, nextFrac = 0\<rparr> 0 0)"
  by (simp add: computeFwdFeesVerbose_def computeFwdFees_def shr16ceil_def bigint_rem_def
      bigint_div_def bigint_shr_def drop_bit_eq_div)

text \<open>
  C10, amended. For message prices whose \<open>lumpPrice\<close>, \<open>bitPrice\<close> and \<open>cellPrice\<close> are
  non-negative and whose \<open>firstFrac\<close> lies in \<open>0 ..< 2 ^ 16\<close> (what \<open>configParseMsgPrices\<close>
  returns), and for non-negative \<open>cells\<close> and \<open>bits\<close>, the share \<open>res\<close> and the remainder
  \<open>remaining\<close> of \<open>computeFwdFeesVerbose\<close> both lie between 0 and \<open>total\<close>.
\<close>

theorem computeFwdFeesVerbose_share_bounded:
  assumes "0 \<le> lumpPrice p" and "0 \<le> bitPrice p" and "0 \<le> cellPrice p"
    and "0 \<le> firstFrac p" and "firstFrac p < 2 ^ 16"
    and "0 \<le> ncells" and "0 \<le> nbits"
  shows "0 \<le> res (computeFwdFeesVerbose p ncells nbits)
       \<and> res (computeFwdFeesVerbose p ncells nbits) \<le> total (computeFwdFeesVerbose p ncells nbits)
       \<and> 0 \<le> remaining (computeFwdFeesVerbose p ncells nbits)
       \<and> remaining (computeFwdFeesVerbose p ncells nbits)
           \<le> total (computeFwdFeesVerbose p ncells nbits)"
proof -
  let ?fees = "computeFwdFees p ncells nbits"
  let ?share = "(?fees * firstFrac p) div 65536"
  from assms have "0 \<le> bitPrice p * nbits + cellPrice p * ncells" by simp
  then have "0 \<le> shr16ceil (bitPrice p * nbits + cellPrice p * ncells)"
    by (rule shr16ceil_nonneg_result)
  with assms(1) have fees: "0 \<le> ?fees" by (simp add: computeFwdFees_def)
  with assms(4) have lower: "0 \<le> ?share"
    by (simp add: pos_imp_zdiv_nonneg_iff)
  from fees assms(5) have "?fees * firstFrac p \<le> ?fees * 65536"
    by (intro mult_left_mono) simp_all
  then have "?share \<le> (?fees * 65536) div 65536" by (rule zdiv_mono1) simp
  then have upper: "?share \<le> ?fees" by simp
  from lower upper show ?thesis
    by (simp add: computeFwdFeesVerbose_def Let_def bigint_shr_def drop_bit_eq_div)
qed

theorem computeFwdFeesVerbose_share_bounded_witness:
  "0 \<le> lumpPrice sample_msg_prices \<and> 0 \<le> bitPrice sample_msg_prices
   \<and> 0 \<le> cellPrice sample_msg_prices
   \<and> 0 \<le> firstFrac sample_msg_prices \<and> firstFrac sample_msg_prices < 2 ^ 16
   \<and> (0::int) \<le> 1 \<and> (0::int) \<le> 100
   \<and> computeFwdFeesVerbose sample_msg_prices 1 100
       = \<lparr>total = 480000, res = 159997, remaining = 320003\<rparr>
   \<and> 0 \<le> res (computeFwdFeesVerbose sample_msg_prices 1 100)
   \<and> res (computeFwdFeesVerbose sample_msg_prices 1 100)
       \<le> total (computeFwdFeesVerbose sample_msg_prices 1 100)
   \<and> 0 \<le> remaining (computeFwdFeesVerbose sample_msg_prices 1 100)
   \<and> remaining (computeFwdFeesVerbose sample_msg_prices 1 100)
       \<le> total (computeFwdFeesVerbose sample_msg_prices 1 100)"
proof -
  have prices: "0 \<le> lumpPrice sample_msg_prices" "0 \<le> bitPrice sample_msg_prices"
    "0 \<le> cellPrice sample_msg_prices"
    "0 \<le> firstFrac sample_msg_prices" "firstFrac sample_msg_prices < 2 ^ 16"
    by (simp_all add: sample_msg_prices_def)
  have sizes: "(0::int) \<le> 1" "(0::int) \<le> 100" by simp_all
  have fees: "computeFwdFeesVerbose sample_msg_prices 1 100
       = \<lparr>total = 480000, res = 159997, remaining = 320003\<rparr>"
    by (simp add: computeFwdFeesVerbose_def computeFwdFees_def shr16ceil_def bigint_rem_def
        bigint_div_def bigint_shr_def drop_bit_eq_div sample_msg_prices_def)
  from computeFwdFeesVerbose_share_bounded [OF prices sizes] prices fees show ?thesis
    by (simp only: simp_thms sizes)
qed

subsection \<open>Reading back what was stored\<close>

lemma length_uint_bits [simp]: "length (uint_bits n v) = n"
  by (induction n arbitrary: v) simp_all

lemma bits_to_int_snoc:
  "bits_to_int (bs @ [b]) = 2 * bits_to_int bs + (if b then 1 else 0)"
  by (simp add: bits_to_int_def)

lemma bits_to_int_uint_bits:
  "0 \<le> v \<Longrightarrow> v < 2 ^ n \<Longrightarrow> bits_to_int (uint_bits n v) = v"
proof (induction n arbitrary: v)
  case 0
  then show ?case by (simp add: bits_to_int_def)
next
  case (Suc n)
  from Suc.prems have "0 \<le> v div 2" and "v div 2 < 2 ^ n" by simp_all
  then have "bits_to_int (uint_bits n (v div 2)) = v div 2" by (rule Suc.IH)
  then show ?case by (simp add: bits_to_int_snoc)
qed

lemma loadUintBig_uint_bits:
  "0 \<le> v \<Longrightarrow> v < 2 ^ n \<Longrightarrow>
   loadUintBig (Slice (uint_bits n v @ rest) rs) n = Inr (v, Slice rest rs)"
  by (simp add: bits_to_int_uint_bits)

lemma loadUintBig_uint_bits_last:
  "0 \<le> v \<Longrightarrow> v < 2 ^ n \<Longrightarrow>
   loadUintBig (Slice (uint_bits n v) rs) n = Inr (v, Slice [] rs)"
  by (simp add: bits_to_int_uint_bits)

lemma preloadUintBig_uint_bits:
  "0 \<le> v \<Longrightarrow> v < 2 ^ n \<Longrightarrow>
   preloadUintBig (Slice (uint_bits n v @ rest) rs) n = Inr v"
  by (simp add: bits_to_int_uint_bits)

lemma bindE_Inr [simp]: "bindE (Inr x) f = f x"
  by (simp add: bindE_def)

lemma bindE_Inl [simp]: "bindE (Inl e) f = Inl e"
  by (simp add: bindE_def)

subsection \<open>Storing and loading the configuration dictionary\<close>

text \<open>
  Sorting by key bits is stable, so a lookup finds the same entry before and after it.
\<close>

lemma map_of_filter_first:
  "map_of xs k = (case filter (\<lambda>x. fst x = k) xs of [] \<Rightarrow> None | x # _ \<Rightarrow> Some (snd x))"
  by (induction xs) auto

lemma filter_sort_key_cong:
  assumes "\<And>x. x \<in> set xs \<Longrightarrow> P x = (g x = c)"
  shows "filter P (sort_key g xs) = filter P xs"
proof -
  have "filter P (sort_key g xs) = filter (\<lambda>x. g x = c) (sort_key g xs)"
    by (rule filter_cong) (simp_all add: assms)
  also have "\<dots> = filter (\<lambda>x. g x = c) xs" by (rule sort_key_stable)
  also have "\<dots> = filter P xs" by (rule filter_cong) (simp_all add: assms)
  finally show ?thesis .
qed

lemma map_of_map_sort_key:
  assumes "\<And>x. x \<in> set xs \<Longrightarrow> (fst (dec x) = k) = (g x = c)"
  shows "map_of (map dec (sort_key g xs)) k = map_of (map dec xs) k"
proof -
  have "filter (\<lambda>x. fst x = k) (map dec (sort_key g xs))
          = map dec (filter (\<lambda>x. fst (dec x) = k) (sort_key g xs))"
    by (simp add: filter_map comp_def)
  also have "\<dots> = map dec (filter (\<lambda>x. fst (dec x) = k) xs)"
    using assms by (simp add: filter_sort_key_cong [where c = c])
  also have "\<dots> = filter (\<lambda>x. fst x = k) (map dec xs)"
    by (simp add: filter_map comp_def)
  finally show ?thesis by (simp add: map_of_filter_first)
qed

lemma sint_word_of_int32: "int32 k \<Longrightarrow> sint (word_of_int k :: 32 word) = k"
  by (simp add: int32_def sint_sbintrunc' signed_take_bit_int_eq_self)

lemma int32_sint: "int32 (sint (w :: 32 word))"
  using sint_ge [of w] sint_lt [of w] by (simp add: int32_def)

lemma uint_word_of_int32_eq:
  assumes "int32 k" and "int32 k'"
  shows "(uint (word_of_int k' :: 32 word) = uint (word_of_int k :: 32 word)) = (k' = k)"
proof
  assume "uint (word_of_int k' :: 32 word) = uint (word_of_int k :: 32 word)"
  then have "(word_of_int k' :: 32 word) = word_of_int k" by (simp add: word_uint_eq_iff)
  then have "sint (word_of_int k' :: 32 word) = sint (word_of_int k :: 32 word)" by simp
  with assms show "k' = k" by (simp add: sint_word_of_int32)
qed simp

lemma serialize_config_entries:
  "\<forall>k \<in> set (map fst d). int32 k \<Longrightarrow>
   serialize_entries Keys_Int32_serialize Values_Cell_serialize d
     = Inr (map (\<lambda>(k, c). (word_of_int k, [], [c])) d)"
  by (induction d)
     (auto simp: Keys_Int32_serialize_def Values_Cell_serialize_def beginCell_def int32_def)

lemma parse_config_entries:
  "\<forall>e \<in> set es. snd (snd e) \<noteq> [] \<Longrightarrow>
   parse_entries Keys_Int32_parse Values_Cell_parse es
     = Inr (map (\<lambda>(w, bs, rs). (sint w, hd rs)) es)"
proof (induction es)
  case Nil
  show ?case by simp
next
  case (Cons e es)
  obtain w bs rs where e: "e = (w, bs, rs)" by (cases e)
  with Cons.prems obtain r rs' where rs: "rs = r # rs'" by (cases rs) auto
  from Cons have "parse_entries Keys_Int32_parse Values_Cell_parse es
     = Inr (map (\<lambda>(w, bs, rs). (sint w, hd rs)) es)" by simp
  then have IH: "parse_entries Keys_Int32_parse Values_Cell_parse es
     = Inr (map (\<lambda>(w, bs, rs). (sint w, hd rs)) es)" .
  have v: "Values_Cell_parse (Slice bs (r # rs')) = Inr r"
    by (simp add: Values_Cell_parse_def)
  have k: "Keys_Int32_parse w = sint w"
    by (simp add: Keys_Int32_parse_def)
  show ?case unfolding e rs by (simp add: IH v k)
qed

lemma storeConfig_loadConfig:
  assumes keys: "\<forall>k \<in> set (map fst d). int32 k" and nonempty: "d \<noteq> []"
  shows "\<exists>blob' d'. storeConfig d = Inr blob' \<and> loadConfig blob' = Inr d'
           \<and> (\<forall>k. int32 k \<longrightarrow> Dictionary_get d' k = Dictionary_get d k)"
proof -
  let ?enc = "\<lambda>(k, c). (word_of_int k :: 32 word, [] :: bool list, [c :: cell])"
  let ?dec = "\<lambda>(w :: 32 word, bs :: bool list, rs :: cell list). (sint w, hd rs)"
  let ?g = "\<lambda>e :: 32 word \<times> bool list \<times> cell list. uint (fst e)"
  let ?es = "sort_key ?g (map ?enc d)"
  have store: "storeConfig d = Inr (DictCell ?es)"
    using nonempty by (simp add: storeConfig_def storeDictDirect_def serialize_config_entries [OF keys])
  have "\<forall>e \<in> set ?es. snd (snd e) \<noteq> []" by auto
  then have load: "loadConfig (DictCell ?es) = Inr (map ?dec ?es)"
    by (simp add: loadConfig_def parse_config_entries)
  have id: "map ?dec (map ?enc d) = d"
    using keys by (induction d) (auto simp: sint_word_of_int32)
  have "Dictionary_get (map ?dec ?es) k = Dictionary_get d k" if k: "int32 k" for k
  proof -
    have "map_of (map ?dec ?es) k = map_of (map ?dec (map ?enc d)) k"
    proof (rule map_of_map_sort_key [where c = "uint (word_of_int k :: 32 word)"])
      fix x assume "x \<in> set (map ?enc d)"
      then obtain k' c where x: "x = (word_of_int k', [], [c])" and "(k', c) \<in> set d" by auto
      with keys have k': "int32 k'" by force
      from x k k' show "(fst (?dec x) = k) = (?g x = uint (word_of_int k :: 32 word))"
        by (simp add: sint_word_of_int32 uint_word_of_int32_eq)
    qed
    then show ?thesis by (simp only: Dictionary_get_def id)
  qed
  with store load show ?thesis by blast
qed

lemma loadConfig_keys:
  assumes "loadConfig blob = Inr config"
  shows "\<forall>k \<in> set (map fst config). int32 k"
proof -
  have "parse_entries Keys_Int32_parse vp es = Inr d \<Longrightarrow> \<forall>k \<in> set (map fst d). int32 k"
    for vp :: "slice \<Rightarrow> error + cell" and es d
  proof (induction es arbitrary: d)
    case Nil
    then show ?case by simp
  next
    case (Cons e es)
    obtain w bs rs where e: "e = (w, bs, rs)" by (cases e)
    from Cons.prems e obtain v d0 where "vp (Slice bs rs) = Inr v"
      and d0: "parse_entries Keys_Int32_parse vp es = Inr d0"
      and d: "d = (Keys_Int32_parse w, v) # d0"
      by (auto simp: bindE_def split: sum.splits)
    from Cons.IH [OF d0] d show ?case by (simp add: Keys_Int32_parse_def int32_sint)
  qed
  with assms show ?thesis by (cases blob) (auto simp: loadConfig_def)
qed

lemma store_updated_config:
  assumes load: "loadConfig blob = Inr config" and idx: "int32 idx"
  shows "\<exists>blob' config'. storeConfig (Dictionary_set config idx c) = Inr blob'
           \<and> loadConfig blob' = Inr config'
           \<and> Dictionary_get config' idx = Some c
           \<and> (\<forall>k. int32 k \<longrightarrow> k \<noteq> idx \<longrightarrow> Dictionary_get config' k = Dictionary_get config k)"
proof -
  let ?d = "Dictionary_set config idx c"
  from loadConfig_keys [OF load] idx have keys: "\<forall>k \<in> set (map fst ?d). int32 k"
    by (auto simp: Dictionary_set_def update_keys)
  have nonempty: "?d \<noteq> []" by (cases config) (auto simp: Dictionary_set_def)
  from storeConfig_loadConfig [OF keys nonempty] obtain blob' config'
    where "storeConfig ?d = Inr blob'" and "loadConfig blob' = Inr config'"
      and get: "\<forall>k. int32 k \<longrightarrow> Dictionary_get config' k = Dictionary_get ?d k" by blast
  moreover from get idx have "Dictionary_get config' idx = Some c"
    by (simp add: Dictionary_get_def Dictionary_set_def update_conv')
  moreover from get have "\<forall>k. int32 k \<longrightarrow> k \<noteq> idx \<longrightarrow> Dictionary_get config' k = Dictionary_get config k"
    by (simp add: Dictionary_get_def Dictionary_set_def update_conv')
  ultimately show ?thesis by blast
qed

lemma int32_workchain: "w = 0 \<or> w = - 1 \<Longrightarrow> int32 (21 + w) \<and> int32 (25 + w)"
  by (auto simp: int32_def)

lemma loadConfig_example:
  "loadConfig example_config = Inr [(20, example_gas_record), (21, example_gas_record)]"
  by (simp add: example_config_def loadConfig_def Keys_Int32_parse_def Values_Cell_parse_def)

subsection \<open>Gas prices\<close>

lemma length_gas_record_bits: "length (gas_record_bits p) = 208"
  by (simp add: gas_record_bits_def)

lemma setGasPrice_builds:
  assumes valid: "valid_GasPrices p"
    and load: "loadConfig blob = Inr config"
    and get: "Dictionary_get config (21 + w) = Some (Cell bs rs)"
    and len: "208 \<le> length bs" "length bs \<le> 1023" "length rs \<le> 4"
  shows "setGasPrice blob p w
           = storeConfig (Dictionary_set config (21 + w) (Cell (gas_record_bits p @ drop 208 bs) rs))"
  using valid len
  by (simp add: setGasPrice_def load get beginCell_def valid_GasPrices_def uint64_def
      gas_record_bits_def)

lemma setGasPrice_stores:
  assumes valid: "valid_GasPrices p" and idx: "int32 (21 + w)"
    and load: "loadConfig blob = Inr config"
    and get: "Dictionary_get config (21 + w) = Some (Cell bs rs)"
    and len: "208 \<le> length bs" "length bs \<le> 1023" "length rs \<le> 4"
  shows "\<exists>blob' config'. setGasPrice blob p w = Inr blob' \<and> loadConfig blob' = Inr config'
           \<and> Dictionary_get config' (21 + w) = Some (Cell (gas_record_bits p @ drop 208 bs) rs)"
  using store_updated_config [OF load idx, of "Cell (gas_record_bits p @ drop 208 bs) rs"]
  by (auto simp: setGasPrice_builds [OF valid load get len])

lemma getGasPrices_record:
  assumes load: "loadConfig blob = Inr config"
    and get: "Dictionary_get config (21 + w) = Some (Cell (gas_record_bits p @ rest) rs)"
    and valid: "valid_GasPrices p"
  shows "getGasPrices blob w = Inr p"
  using valid
  by (simp add: getGasPrices_def load get gas_record_bits_def valid_GasPrices_def uint64_def
      loadUint_def loadUintBig_uint_bits preloadUintBig_uint_bits
      del: loadUintBig.simps preloadUintBig.simps)

text \<open>
  C6. For valid gas prices \<open>p\<close> (every field an unsigned 64-bit value), a workchain
  \<open>w\<close> of 0 or \<open>-1\<close>, and a configuration whose key \<open>21 + w\<close> holds a cell with the
  208 bits of a gas price record or more, \<open>setGasPrice\<close> succeeds and \<open>getGasPrices\<close>
  reads \<open>p\<close> back from its result.
\<close>

theorem gas_prices_roundtrip:
  assumes "valid_GasPrices p" and "w = 0 \<or> w = - 1"
    and "loadConfig blob = Inr config"
    and "Dictionary_get config (21 + w) = Some (Cell bs rs)"
    and "208 \<le> length bs" and "length bs \<le> 1023" and "length rs \<le> 4"
  shows "\<exists>blob'. setGasPrice blob p w = Inr blob' \<and> getGasPrices blob' w = Inr p"
proof -
  from assms(2) have "int32 (21 + w)" by (simp add: int32_workchain)
  from setGasPrice_stores [OF assms(1) this assms(3-7)] obtain blob' config'
    where set: "setGasPrice blob p w = Inr blob'" and load': "loadConfig blob' = Inr config'"
      and get': "Dictionary_get config' (21 + w)
                   = Some (Cell (gas_record_bits p @ drop 208 bs) rs)" by blast
  from getGasPrices_record [OF load' get' assms(1)] set show ?thesis by blast
qed

theorem gas_prices_roundtrip_witness:
  "valid_GasPrices \<lparr>flat_gas_limit = 1, flat_gas_price = 2, gas_price = 3\<rparr>
   \<and> loadConfig example_config = Inr [(20, example_gas_record), (21, example_gas_record)]
   \<and> Dictionary_get [(20, example_gas_record), (21, example_gas_record)] (21 + (- 1))
       = Some example_gas_record
   \<and> (\<exists>blob'. setGasPrice example_config
                  \<lparr>flat_gas_limit = 1, flat_gas_price = 2, gas_price = 3\<rparr> (- 1) = Inr blob'
        \<and> getGasPrices blob' (- 1)
            = Inr \<lparr>flat_gas_limit = 1, flat_gas_price = 2, gas_price = 3\<rparr>)"
proof -
  let ?p = "\<lparr>flat_gas_limit = 1, flat_gas_price = 2, gas_price = 3\<rparr>"
  let ?bs = "gas_record_bits sample_gas_prices @ [True, False, True]"
  have valid: "valid_GasPrices ?p"
    by (simp add: valid_GasPrices_def uint64_def)
  have workchain: "(- 1 :: int) = 0 \<or> (- 1 :: int) = - 1" by simp
  have get: "Dictionary_get [(20, example_gas_record), (21, example_gas_record)] (21 + (- 1))
               = Some (Cell ?bs [Cell [True] []])"
    by (simp add: Dictionary_get_def example_gas_record_def)
  have len: "208 \<le> length ?bs" "length ?bs \<le> 1023" "length [Cell [True] []] \<le> 4"
    by (simp_all add: length_gas_record_bits)
  from gas_prices_roundtrip [OF valid workchain loadConfig_example get len] valid get
  show ?thesis by (simp add: loadConfig_example example_gas_record_def)
qed

text \<open>
  C9. Under the same conditions, the cell that \<open>setGasPrice\<close> stores at the key
  \<open>21 + w\<close> starts with the 208 bits of the new tagged record, and everything after them,
  the bits and the references, is what followed the first 208 bits of the original cell.
\<close>

theorem setGasPrice_keeps_tail:
  assumes "valid_GasPrices p" and "w = 0 \<or> w = - 1"
    and "loadConfig blob = Inr config"
    and "Dictionary_get config (21 + w) = Some (Cell bs rs)"
    and "208 \<le> length bs" and "length bs \<le> 1023" and "length rs \<le> 4"
  shows "\<exists>blob' config' bs'. setGasPrice blob p w = Inr blob' \<and> loadConfig blob' = Inr config'
           \<and> Dictionary_get config' (21 + w) = Some (Cell bs' rs)
           \<and> take 208 bs' = gas_record_bits p \<and> drop 208 bs' = drop 208 bs"
proof -
  from assms(2) have "int32 (21 + w)" by (simp add: int32_workchain)
  from setGasPrice_stores [OF assms(1) this assms(3-7)] obtain blob' config'
    where "setGasPrice blob p w = Inr blob'" and "loadConfig blob' = Inr config'"
      and "Dictionary_get config' (21 + w)
             = Some (Cell (gas_record_bits p @ drop 208 bs) rs)" by blast
  moreover have "take 208 (gas_record_bits p @ drop 208 bs) = gas_record_bits p"
    and "drop 208 (gas_record_bits p @ drop 208 bs) = drop 208 bs"
    by (simp_all add: length_gas_record_bits)
  ultimately show ?thesis by blast
qed

theorem setGasPrice_keeps_tail_witness:
  "valid_GasPrices \<lparr>flat_gas_limit = 1, flat_gas_price = 2, gas_price = 3\<rparr>
   \<and> loadConfig example_config = Inr [(20, example_gas_record), (21, example_gas_record)]
   \<and> Dictionary_get [(20, example_gas_record), (21, example_gas_record)] (21 + 0)
       = Some example_gas_record
   \<and> (\<exists>blob' config' bs'.
        setGasPrice example_config \<lparr>flat_gas_limit = 1, flat_gas_price = 2, gas_price = 3\<rparr> 0
          = Inr blob'
        \<and> loadConfig blob' = Inr config'
        \<and> Dictionary_get config' (21 + 0) = Some (Cell bs' [Cell [True] []])
        \<and> take 208 bs' = gas_record_bits \<lparr>flat_gas_limit = 1, flat_gas_price = 2, gas_price = 3\<rparr>
        \<and> drop 208 bs' = [True, False, True])"
proof -
  let ?p = "\<lparr>flat_gas_limit = 1, flat_gas_price = 2, gas_price = 3\<rparr>"
  let ?bs = "gas_record_bits sample_gas_prices @ [True, False, True]"
  have valid: "valid_GasPrices ?p"
    by (simp add: valid_GasPrices_def uint64_def)
  have workchain: "(0 :: int) = 0 \<or> (0 :: int) = - 1" by simp
  have get: "Dictionary_get [(20, example_gas_record), (21, example_gas_record)] (21 + 0)
               = Some (Cell ?bs [Cell [True] []])"
    by (simp add: Dictionary_get_def example_gas_record_def)
  have len: "208 \<le> length ?bs" "length ?bs \<le> 1023" "length [Cell [True] []] \<le> 4"
    by (simp_all add: length_gas_record_bits)
  have tail: "drop 208 ?bs = [True, False, True]"
    by (simp add: length_gas_record_bits)
  from setGasPrice_keeps_tail [OF valid workchain loadConfig_example get len] valid get
  show ?thesis unfolding tail by (simp add: loadConfig_example example_gas_record_def)
qed

subsection \<open>Message prices\<close>

lemma setMsgPrices_builds:
  assumes valid: "valid_MsgPrices p" and load: "loadConfig blob = Inr config"
  shows "setMsgPrices blob p w
           = storeConfig (Dictionary_set config (25 + w) (Cell (msg_record_bits p) []))"
  using valid
  by (simp add: setMsgPrices_def load beginCell_def valid_MsgPrices_def uint64_def
      msg_record_bits_def)

lemma configParseMsgPrices_record:
  assumes valid: "valid_MsgPrices p"
  shows "configParseMsgPrices (Slice (msg_record_bits p @ rest) rs) = Inr p"
  using valid
  by (simp add: configParseMsgPrices_def msg_record_bits_def valid_MsgPrices_def uint64_def
      loadUint_def loadUintBig_uint_bits
      del: loadUintBig.simps)

text \<open>
  C8. For valid message prices \<open>p\<close> (every field within its width of 64, 32 or 16 bits),
  a workchain \<open>w\<close> of 0 or \<open>-1\<close> and a configuration that loads, \<open>setMsgPrices\<close>
  succeeds, the entry of its result at the key \<open>25 + w\<close> parses to \<open>p\<close> with
  \<open>configParseMsgPrices\<close>, and so \<open>getMsgPrices\<close> returns \<open>p\<close>.
\<close>

theorem msg_prices_roundtrip:
  assumes "valid_MsgPrices p" and "w = 0 \<or> w = - 1"
    and "loadConfig blob = Inr config"
  shows "\<exists>blob' config' c. setMsgPrices blob p w = Inr blob' \<and> loadConfig blob' = Inr config'
           \<and> Dictionary_get config' (25 + w) = Some c
           \<and> configParseMsgPrices (beginParse c) = Inr p
           \<and> getMsgPrices blob' w = Inr p"
proof -
  let ?c = "Cell (msg_record_bits p) []"
  from assms(2) have "int32 (25 + w)" by (simp add: int32_workchain)
  from store_updated_config [OF assms(3) this, of ?c] obtain blob' config'
    where store: "storeConfig (Dictionary_set config (25 + w) ?c) = Inr blob'"
      and load': "loadConfig blob' = Inr config'"
      and get': "Dictionary_get config' (25 + w) = Some ?c" by blast
  have parse: "configParseMsgPrices (beginParse ?c) = Inr p"
    using configParseMsgPrices_record [OF assms(1), of "[]" "[]"] by simp
  from store have "setMsgPrices blob p w = Inr blob'"
    by (simp add: setMsgPrices_builds [OF assms(1) assms(3)])
  moreover from load' get' parse have "getMsgPrices blob' w = Inr p"
    by (simp add: getMsgPrices_def)
  ultimately show ?thesis using load' get' parse by blast
qed

theorem msg_prices_roundtrip_witness:
  "valid_MsgPrices sample_msg_prices
   \<and> loadConfig example_config = Inr [(20, example_gas_record), (21, example_gas_record)]
   \<and> (\<exists>blob' config' c.
        setMsgPrices example_config sample_msg_prices (- 1) = Inr blob'
        \<and> loadConfig blob' = Inr config'
        \<and> Dictionary_get config' (25 + (- 1)) = Some c
        \<and> configParseMsgPrices (beginParse c) = Inr sample_msg_prices
        \<and> getMsgPrices blob' (- 1) = Inr sample_msg_prices)"
proof -
  have valid: "valid_MsgPrices sample_msg_prices"
    by (simp add: valid_MsgPrices_def uint64_def sample_msg_prices_def)
  have workchain: "(- 1 :: int) = 0 \<or> (- 1 :: int) = - 1" by simp
  from msg_prices_roundtrip [OF valid workchain loadConfig_example] valid loadConfig_example
  show ?thesis by blast
qed

subsection \<open>Tag bytes\<close>

text \<open>
  The gas price reader and the message price reader compare each tag byte and throw on a
  mismatch; they return a record only when the tags match.
\<close>

lemma getGasPrices_flat_tag:
  assumes "loadConfig blob = Inr config"
    and "Dictionary_get config (21 + w) = Some (Cell bs rs)"
    and "8 \<le> length bs" and "bits_to_int (take 8 bs) \<noteq> 0xd1"
  shows "getGasPrices blob w = Inl (Error ''Invalid flat gas prices tag!'')"
  using assms by (simp add: getGasPrices_def loadUint_def)

lemma getGasPrices_gas_tag:
  assumes "loadConfig blob = Inr config"
    and "Dictionary_get config (21 + w) = Some (Cell bs rs)"
    and "144 \<le> length bs" and "bits_to_int (take 8 bs) = 0xd1"
    and "bits_to_int (take 8 (drop 136 bs)) \<noteq> 0xde"
  shows "getGasPrices blob w = Inl (Error ''Invalid gas prices tag!'')"
  using assms by (auto simp: getGasPrices_def loadUint_def)

lemma getGasPrices_tags:
  assumes "getGasPrices blob w = Inr p"
    and "loadConfig blob = Inr config"
    and "Dictionary_get config (21 + w) = Some (Cell bs rs)"
  shows "bits_to_int (take 8 bs) = 0xd1 \<and> bits_to_int (take 8 (drop 136 bs)) = 0xde"
  using assms by (auto simp: getGasPrices_def loadUint_def split: if_splits)

lemma configParseMsgPrices_tag:
  assumes "8 \<le> length bs" and "bits_to_int (take 8 bs) \<noteq> 0xea"
  shows "configParseMsgPrices (Slice bs rs) = Inl (Error ''Invalid message prices magic number!'')"
  using assms by (simp add: configParseMsgPrices_def loadUint_def)

lemma configParseMsgPrices_tags:
  assumes "configParseMsgPrices (Slice bs rs) = Inr p"
  shows "bits_to_int (take 8 bs) = 0xea"
  using assms by (simp add: configParseMsgPrices_def loadUint_def split: if_splits)

text \<open>The storage price codec writes the tag \<open>0xcc\<close>, and its reader skips 8 bits unread.\<close>

lemma storageValue_serialize_ok:
  "valid_StorageValue p \<Longrightarrow>
   storageValue_serialize p beginCell = Inr (Builder (storage_record_bits 0xcc p) [])"
  by (simp add: storageValue_serialize_def beginCell_def valid_StorageValue_def uint64_def
      storage_record_bits_def)

lemma storageValue_parse_any_tag:
  "valid_StorageValue p \<Longrightarrow>
   storageValue_parse (Slice (storage_record_bits tag p @ rest) rs) = Inr p"
  by (simp add: storageValue_parse_def storage_record_bits_def valid_StorageValue_def uint64_def
      loadUint_def loadUintBig_uint_bits del: loadUintBig.simps)

lemma valid_examples: "valid_StorageValue old_prices" "valid_StorageValue new_prices"
  by (simp_all add: valid_StorageValue_def uint64_def old_prices_def new_prices_def)

text \<open>
  C4 at a storage price record whose tag byte is 0 and not \<open>0xcc\<close>: \<open>storageValue_parse\<close>
  returns the prices, where the specification has a parse error.
\<close>

theorem storageValue_parse_skips_tag:
  "storageValue_parse (Slice (storage_record_bits 0 old_prices) []) = Inr old_prices
   \<and> take 8 (storage_record_bits 0 old_prices) = uint_bits 8 0
   \<and> bits_to_int (uint_bits 8 0) \<noteq> 0xcc"
  using storageValue_parse_any_tag [OF valid_examples(1), of 0 "[]" "[]"]
  by (simp add: storage_record_bits_def bits_to_int_uint_bits)

subsection \<open>Storage prices\<close>

lemma bits_to_int_bounds: "0 \<le> bits_to_int bs \<and> bits_to_int bs < 2 ^ length bs"
proof (induction bs rule: rev_induct)
  case Nil
  show ?case by (simp add: bits_to_int_def)
next
  case (snoc b bs)
  then show ?case by (auto simp: bits_to_int_snoc)
qed

lemma loadUintBig_bounds:
  assumes "loadUintBig s n = Inr (v, s')"
  shows "0 \<le> v \<and> v < 2 ^ n"
proof (cases s)
  case (Slice bs rs)
  with assms have len: "n \<le> length bs" and v: "v = bits_to_int (take n bs)"
    by (auto split: if_splits)
  from len have "length (take n bs) = n" by simp
  with bits_to_int_bounds [of "take n bs"] v show ?thesis by simp
next
  case (DictSlice es)
  with assms show ?thesis by simp
qed

lemma storageValue_parse_valid:
  assumes "storageValue_parse s = Inr v"
  shows "valid_StorageValue v"
proof -
  from assms obtain s0 s1 s2 s3 s4 s5 a b c d e where
    "loadUintBig s0 32 = Inr (a, s1)" "loadUintBig s1 64 = Inr (b, s2)"
    "loadUintBig s2 64 = Inr (c, s3)" "loadUintBig s3 64 = Inr (d, s4)"
    "loadUintBig s4 64 = Inr (e, s5)"
    and v: "v = \<lparr>utime_sice = a, bit_price_ps = b, cell_price_ps = c,
                 mc_bit_price_ps = d, mc_cell_price_ps = e\<rparr>"
    by (auto simp: storageValue_parse_def loadUint_def bindE_def split: sum.splits)
  then show ?thesis
    by (auto simp: valid_StorageValue_def uint64_def dest!: loadUintBig_bounds)
qed



lemma parse_entries_values:
  "parse_entries kp vp es = Inr d \<Longrightarrow> \<forall>v \<in> set (map snd d). \<exists>s. vp s = Inr v"
proof (induction es arbitrary: d)
  case Nil
  then show ?case by simp
next
  case (Cons e es)
  obtain w bs rs where e: "e = (w, bs, rs)" by (cases e)
  from Cons.prems e obtain v d0 where v: "vp (Slice bs rs) = Inr v"
    and d0: "parse_entries kp vp es = Inr d0" and d: "d = (kp w, v) # d0"
    by (auto simp: bindE_def split: sum.splits)
  from Cons.IH [OF d0] v d show ?case by auto
qed

lemma loaded_storage_values_valid:
  assumes "Dictionary_loadDirect Keys_Uint32_parse storageValue_parse c = Inr storageData"
  shows "\<forall>v \<in> set (map snd storageData). valid_StorageValue v"
proof (cases c)
  case None
  with assms show ?thesis by simp
next
  case (Some cell)
  show ?thesis
  proof (cases cell)
    case (Cell bs rs)
    with Some assms show ?thesis by simp
  next
    case (DictCell es)
    with Some assms have "parse_entries Keys_Uint32_parse storageValue_parse es = Inr storageData"
      by simp
    from parse_entries_values [OF this] show ?thesis
      by (auto dest: storageValue_parse_valid)
  qed
qed

lemma uint_word_of_int_uint32:
  "0 \<le> k \<Longrightarrow> k < 2 ^ 32 \<Longrightarrow> uint (word_of_int k :: 32 word) = k"
  by (simp add: uint_word_of_int)

lemma serialize_storage_entries:
  assumes "\<forall>k \<in> set (map fst d). 0 \<le> k \<and> k < 2 ^ 32"
    and "\<forall>v \<in> set (map snd d). valid_StorageValue v"
  shows "serialize_entries Keys_Uint32_serialize storageValue_serialize d
           = Inr (map (\<lambda>(k, v). (word_of_int k, storage_record_bits 0xcc v, [])) d)"
  using assms
  by (induction d) (auto simp: Keys_Uint32_serialize_def storageValue_serialize_ok)

lemma parse_storage_entries:
  assumes "\<forall>k \<in> set (map fst d). 0 \<le> k \<and> k < 2 ^ 32"
    and "\<forall>v \<in> set (map snd d). valid_StorageValue v"
  shows "parse_entries Keys_Uint32_parse storageValue_parse
           (map (\<lambda>(k, v). (word_of_int k, storage_record_bits 0xcc v, [])) d) = Inr d"
  using assms
proof (induction d)
  case Nil
  show ?case by simp
next
  case (Cons e d)
  obtain k v where e: "e = (k, v)" by (cases e)
  with Cons.prems have k: "0 \<le> k" "k < 2 ^ 32" and v: "valid_StorageValue v" by simp_all
  from Cons have IH: "parse_entries Keys_Uint32_parse storageValue_parse
           (map (\<lambda>(k, v). (word_of_int k, storage_record_bits 0xcc v, [])) d) = Inr d" by simp
  have key: "Keys_Uint32_parse (word_of_int k) = k"
    using k by (simp add: Keys_Uint32_parse_def uint_word_of_int_uint32)
  from storageValue_parse_any_tag [OF v, of "0xcc" "[]" "[]"]
  have leaf: "storageValue_parse (Slice (storage_record_bits 0xcc v) []) = Inr v" by simp
  show ?case unfolding e by (simp add: IH key leaf)
qed


lemma storage_entry_keys:
  "\<forall>k \<in> set (map fst d). 0 \<le> k \<and> k < 2 ^ 32 \<Longrightarrow>
   map (\<lambda>e. uint (fst e))
     (map (\<lambda>(k, v). (word_of_int k :: 32 word, storage_record_bits 0xcc v, [] :: cell list)) d)
     = map fst d"
  by (induction d) (auto simp: uint_word_of_int_uint32)

lemma update_last_key:
  "k \<notin> fst ` set xs \<Longrightarrow> AList.update k v (xs @ [(k, u)]) = xs @ [(k, v)]"
  by (induction xs) auto

lemma set_last_index:
  assumes keys: "map fst d = map int [0..<length d]" and nonempty: "d \<noteq> []"
  shows "\<exists>d0 u. d = d0 @ [(int (length d) - 1, u)]
           \<and> Dictionary_set d (int (length d) - 1) p = d0 @ [(int (length d) - 1, p)]"
proof -
  from nonempty obtain d0 e where d: "d = d0 @ [e]" by (cases d rule: rev_cases) auto
  obtain k u where e: "e = (k, u)" by (cases e)
  from keys d e have k: "k = int (length d0)" and keys0: "map fst d0 = map int [0..<length d0]"
    by simp_all
  from keys0 have "fst ` set d0 = int ` {0..<length d0}"
    by (metis list.set_map set_upt)
  with k have "k \<notin> fst ` set d0" by auto
  then have "AList.update k p (d0 @ [(k, u)]) = d0 @ [(k, p)]" by (rule update_last_key)
  with d e k show ?thesis by (simp add: Dictionary_set_def)
qed

text \<open>
  When the keys of the storage price dictionary are \<open>0 .. n - 1\<close>, the key \<open>n - 1\<close> that
  \<open>setStoragePrices\<close> writes is the highest one, and \<open>getStoragePrices\<close> reads the new
  prices back.
\<close>

lemma storage_prices_roundtrip_indexed:
  assumes valid: "valid_StorageValue p"
    and load: "loadConfig blob = Inr config"
    and inner: "Dictionary_loadDirect Keys_Uint32_parse storageValue_parse
                  (Dictionary_get config 18) = Inr storageData"
    and keys: "map fst storageData = map int [0..<length storageData]"
    and nonempty: "storageData \<noteq> []" and size: "length storageData \<le> 2 ^ 32"
  shows "\<exists>blob'. setStoragePrices blob p = Inr blob' \<and> getStoragePrices blob' = Inr (Some p)"
proof -
  let ?n = "length storageData"
  let ?enc = "\<lambda>(k, v). (word_of_int k :: 32 word, storage_record_bits 0xcc v, [] :: cell list)"
  from set_last_index [OF keys nonempty, of p] obtain d0 u
    where old: "storageData = d0 @ [(int ?n - 1, u)]"
      and new: "Dictionary_set storageData (int ?n - 1) p = d0 @ [(int ?n - 1, p)]" by blast
  let ?d = "d0 @ [(int ?n - 1, p)]"
  have fst: "map fst ?d = map fst storageData" by (subst (2) old) simp
  have len: "length ?d = ?n" by (subst (2) old) simp
  have range: "\<forall>k \<in> set (map fst ?d). 0 \<le> k \<and> k < 2 ^ 32"
  proof -
    have "k < 2 ^ 32" if "k \<in> int ` {0..<?n}" for k
    proof -
      from that obtain i where "k = int i" and "i < ?n" by auto
      with size have "int i < int (2 ^ 32)" by linarith
      with \<open>k = int i\<close> show ?thesis by simp
    qed
    then show ?thesis unfolding fst keys by auto
  qed
  have "set d0 \<subseteq> set storageData"
    by (subst old) auto
  with loaded_storage_values_valid [OF inner] valid
  have vals: "\<forall>v \<in> set (map snd ?d). valid_StorageValue v" by auto
  have "sorted (map (\<lambda>e. uint (fst e)) (map ?enc ?d))"
  proof -
    have "map (\<lambda>e. uint (fst e)) (map ?enc ?d) = map fst ?d"
      by (rule storage_entry_keys [OF range])
    also have "\<dots> = map int [0..<?n]" by (simp only: fst keys)
    finally show ?thesis by (simp add: sorted_map)
  qed
  then have "sort_key (\<lambda>e. uint (fst e)) (map ?enc ?d) = map ?enc ?d"
    by (rule sort_key_id_if_sorted)
  then have store: "storeDictDirect Keys_Uint32_serialize storageValue_serialize ?d
                      = Inr (DictCell (map ?enc ?d))"
    by (simp add: storeDictDirect_def serialize_storage_entries [OF range vals])
  have int32: "int32 18" by (simp add: int32_def)
  from store_updated_config [OF load int32, of "DictCell (map ?enc ?d)"] obtain blob' config'
    where outer: "storeConfig (Dictionary_set config 18 (DictCell (map ?enc ?d))) = Inr blob'"
      and load': "loadConfig blob' = Inr config'"
      and get': "Dictionary_get config' 18 = Some (DictCell (map ?enc ?d))" by blast
  have set: "setStoragePrices blob p = Inr blob'"
    by (simp only: setStoragePrices_def load inner bindE_Inr Let_def Dictionary_values_def
        length_map new store outer)
  have "array_at (map snd ?d) (int (length (map snd ?d)) - 1) = Some p"
    by (simp add: array_at_def nth_append)
  then have "getStoragePrices blob' = Inr (Some p)"
    by (simp only: getStoragePrices_def load' get' bindE_Inr Dictionary_loadDirect.simps
        beginParse.simps loadDictDirect.simps parse_storage_entries [OF range vals]
        Dictionary_values_def Let_def)
  with set show ?thesis by blast
qed

lemma old_new: "old_prices \<noteq> new_prices"
  by (simp add: old_prices_def new_prices_def)

text \<open>
  C3 at a storage price dictionary with the single key 5: \<open>getStoragePrices\<close> reads the
  entry of key 5, the last one. \<open>setStoragePrices\<close> writes the new prices at the key
  \<open>length - 1 = 0\<close>, a new entry below the key 5, so \<open>getStoragePrices\<close> still returns the
  old prices from its result, where the specification has the new ones.
\<close>

theorem setStoragePrices_key5:
  "getStoragePrices config_key5 = Inr (Some old_prices)
   \<and> bindE (setStoragePrices config_key5 new_prices) getStoragePrices = Inr (Some old_prices)
   \<and> old_prices \<noteq> new_prices"
proof -
  have inner: "Dictionary_loadDirect Keys_Uint32_parse storageValue_parse
                 (Some (DictCell [(5, storage_record_bits 0xcc old_prices, [])]))
               = Inr [(5, old_prices)]"
    using storageValue_parse_any_tag [OF valid_examples(1), of "0xcc" "[]" "[]"]
    by (simp add: Keys_Uint32_parse_def)
  have load: "loadConfig config_key5
                = Inr [(18, DictCell [(5, storage_record_bits 0xcc old_prices, [])])]"
    by (simp add: config_key5_def loadConfig_def Keys_Int32_parse_def Values_Cell_parse_def)
  have get: "getStoragePrices config_key5 = Inr (Some old_prices)"
    by (simp add: getStoragePrices_def load inner Dictionary_get_def Dictionary_values_def
        array_at_def del: Dictionary_loadDirect.simps)
  have store: "storeDictDirect Keys_Uint32_serialize storageValue_serialize
                 [(5, old_prices), (0, new_prices)]
               = Inr (DictCell [(0, storage_record_bits 0xcc new_prices, []),
                                (5, storage_record_bits 0xcc old_prices, [])])"
    by (simp add: storeDictDirect_def Keys_Uint32_serialize_def
        storageValue_serialize_ok [OF valid_examples(1)]
        storageValue_serialize_ok [OF valid_examples(2)])
  have outer: "storeConfig [(18, c)] = Inr (DictCell [(18, [], [c])])" for c
    by (simp add: storeConfig_def storeDictDirect_def Keys_Int32_serialize_def
        Values_Cell_serialize_def beginCell_def)
  have set: "setStoragePrices config_key5 new_prices
               = Inr (DictCell [(18, [], [DictCell [(0, storage_record_bits 0xcc new_prices, []),
                                                     (5, storage_record_bits 0xcc old_prices, [])]])])"
    by (simp add: setStoragePrices_def load inner Dictionary_get_def Dictionary_values_def
        Dictionary_set_def store outer del: Dictionary_loadDirect.simps)
  have inner': "Dictionary_loadDirect Keys_Uint32_parse storageValue_parse
                 (Some (DictCell [(0, storage_record_bits 0xcc new_prices, []),
                                  (5, storage_record_bits 0xcc old_prices, [])]))
               = Inr [(0, new_prices), (5, old_prices)]"
    using storageValue_parse_any_tag [OF valid_examples(1), of "0xcc" "[]" "[]"]
      storageValue_parse_any_tag [OF valid_examples(2), of "0xcc" "[]" "[]"]
    by (simp add: Keys_Uint32_parse_def)
  have get': "getStoragePrices
                (DictCell [(18, [], [DictCell [(0, storage_record_bits 0xcc new_prices, []),
                                               (5, storage_record_bits 0xcc old_prices, [])]])])
              = Inr (Some old_prices)"
    by (simp add: getStoragePrices_def loadConfig_def Keys_Int32_parse_def Values_Cell_parse_def
        inner' Dictionary_get_def Dictionary_values_def array_at_def
        del: Dictionary_loadDirect.simps)
  from get set get' old_new show ?thesis by simp
qed

subsection \<open>Missing keys\<close>

text \<open>
  What each operation does when the configuration has no entry at its key: the gas price
  operations fail with the runtime's \<open>TypeError\<close>, \<open>getMsgPrices\<close> throws its own error,
  \<open>getStoragePrices\<close> returns \<open>undefined\<close>, and \<open>setStoragePrices\<close> fails when the key
  \<open>-1\<close> is serialised.
\<close>

lemma missing_key_results:
  assumes "loadConfig blob = Inr config"
  shows "Dictionary_get config (21 + w) = None \<Longrightarrow> getGasPrices blob w = Inl TypeError"
    and "Dictionary_get config (21 + w) = None \<Longrightarrow> setGasPrice blob p w = Inl TypeError"
    and "Dictionary_get config (25 + w) = None \<Longrightarrow>
           getMsgPrices blob w = Inl (Error ''No prices defined in config'')"
    and "Dictionary_get config 18 = None \<Longrightarrow> getStoragePrices blob = Inr None"
    and "Dictionary_get config 18 = None \<Longrightarrow>
           setStoragePrices blob sp = Inl ValueOutOfRange"
  using assms
  by (simp_all add: getGasPrices_def setGasPrice_def getMsgPrices_def getStoragePrices_def
      setStoragePrices_def Dictionary_values_def array_at_def Dictionary_set_def
      storeDictDirect_def Keys_Uint32_serialize_def)

lemma loadConfig_key5:
  "loadConfig config_key5 = Inr [(18, DictCell [(5, storage_record_bits 0xcc old_prices, [])])]"
  by (simp add: config_key5_def loadConfig_def Keys_Int32_parse_def Values_Cell_parse_def)

text \<open>
  C7 at a configuration with the keys 20 and 21 only: the key 18 is absent, and
  \<open>getStoragePrices\<close> returns \<open>undefined\<close> where the specification has an error. The
  key 24 is absent too, and there \<open>getMsgPrices\<close> throws its error. At a configuration with
  the key 18 only, \<open>getGasPrices\<close> fails with the runtime's \<open>TypeError\<close>.
\<close>

theorem getStoragePrices_missing_key:
  "loadConfig example_config = Inr [(20, example_gas_record), (21, example_gas_record)]
   \<and> Dictionary_get [(20, example_gas_record), (21, example_gas_record)] 18 = None
   \<and> getStoragePrices example_config = Inr None
   \<and> getMsgPrices example_config (- 1) = Inl (Error ''No prices defined in config'')
   \<and> getGasPrices config_key5 0 = Inl TypeError"
  by (simp add: getStoragePrices_def getMsgPrices_def getGasPrices_def loadConfig_example
      loadConfig_key5 Dictionary_get_def Dictionary_values_def array_at_def)

subsection \<open>Sizing a tree of cells\<close>

lemma subcells_self: "c \<in> subcells c"
  by (cases c) simp_all

lemma finite_subcells: "finite (subcells c)"
  by (induction c) auto

lemma size_ref: "r \<in> set rs \<Longrightarrow> size r < size (Cell bs rs)"
  by (induction rs) auto

lemma size_subcells: "d \<in> subcells c \<Longrightarrow> size d \<le> size c"
proof (induction c)
  case (Cell bs rs)
  show ?case
  proof (cases "d = Cell bs rs")
    case False
    with Cell.prems obtain r where r: "r \<in> set rs" and d: "d \<in> subcells r" by auto
    from Cell.IH [OF r d] size_ref [OF r, of bs] show ?thesis by simp
  qed simp
qed simp

lemma subcells_trans: "d \<in> subcells c \<Longrightarrow> subcells d \<subseteq> subcells c"
proof (induction c)
  case (Cell bs rs)
  show ?case
  proof (cases "d = Cell bs rs")
    case False
    with Cell.prems obtain r where r: "r \<in> set rs" and d: "d \<in> subcells r" by auto
    from Cell.IH [OF r d] r show ?thesis by auto
  qed simp
qed simp

lemma root_not_below: "r \<in> set rs \<Longrightarrow> Cell bs rs \<notin> subcells r"
  using size_subcells [of "Cell bs rs" r] size_ref [of r rs bs] by auto

lemma unseen_Nil: "unseen hash [] S = S"
  by (simp add: unseen_def)

lemma unseen_subset: "unseen hash visited S \<subseteq> S"
  by (auto simp: unseen_def)

lemma settled_Nil: "settled hash U [] n"
  by (simp add: settled_def)

lemma settled_mono: "settled hash U visited n \<Longrightarrow> m \<le> n \<Longrightarrow> settled hash U visited m"
  by (auto simp: settled_def)

text \<open>Visiting a whole subtree keeps the visited cells closed.\<close>

lemma settled_after_subtree:
  assumes inj: "inj_on hash U" and sub: "subcells r \<subseteq> U"
    and before: "settled hash U visited n"
    and after: "set visited' = set visited \<union> hash ` subcells r"
  shows "settled hash U visited' n"
  unfolding settled_def
proof (intro ballI impI)
  fix d assume d: "d \<in> U" and "hash d \<in> set visited' \<and> size d \<le> n"
  then have mem: "hash d \<in> set visited'" and size: "size d \<le> n" by simp_all
  show "hash ` subcells d \<subseteq> set visited'"
  proof (cases "hash d \<in> set visited")
    case True
    with before d size have "hash ` subcells d \<subseteq> set visited" by (auto simp: settled_def)
    with after show ?thesis by auto
  next
    case False
    with mem after obtain e where e: "e \<in> subcells r" and "hash d = hash e" by auto
    with inj d sub have "d = e" by (auto dest: inj_onD)
    with e have "subcells d \<subseteq> subcells r" by (simp add: subcells_trans)
    with after show ?thesis by auto
  qed
qed

text \<open>Entering a cell: its own hash is new, and everything below it is smaller.\<close>

lemma settled_below_root:
  assumes inj: "inj_on hash U" and root: "Cell bs rs \<in> U"
    and before: "settled hash U visited (size (Cell bs rs))"
    and r: "r \<in> set rs"
  shows "settled hash U (visited @ [hash (Cell bs rs)]) (size r)"
  unfolding settled_def
proof (intro ballI impI)
  fix d assume d: "d \<in> U"
    and "hash d \<in> set (visited @ [hash (Cell bs rs)]) \<and> size d \<le> size r"
  then have mem: "hash d \<in> set visited \<or> hash d = hash (Cell bs rs)"
    and size: "size d \<le> size r" by auto
  from size size_ref [OF r, of bs] have less: "size d < size (Cell bs rs)" by simp
  have "hash d \<noteq> hash (Cell bs rs)"
  proof
    assume "hash d = hash (Cell bs rs)"
    with inj d root have "d = Cell bs rs" by (auto dest: inj_onD)
    with less show False by simp
  qed
  with mem have "hash d \<in> set visited" by simp
  with before d less have "hash ` subcells d \<subseteq> set visited" by (auto simp: settled_def)
  then show "hash ` subcells d \<subseteq> set (visited @ [hash (Cell bs rs)])" by auto
qed

text \<open>The cells that a second subtree adds are those that the first has not reached.\<close>

lemma unseen_after_subtree:
  assumes inj: "inj_on hash U" and sub: "subcells r \<subseteq> U" and S: "S \<subseteq> U"
    and after: "set visited' = set visited \<union> hash ` subcells r"
  shows "unseen hash visited (subcells r \<union> S)
           = unseen hash visited (subcells r) \<union> unseen hash visited' S"
    and "unseen hash visited (subcells r) \<inter> unseen hash visited' S = {}"
proof -
  have eq: "(hash d \<in> hash ` subcells r) = (d \<in> subcells r)" if "d \<in> S" for d
  proof
    assume "hash d \<in> hash ` subcells r"
    then obtain e where e: "e \<in> subcells r" and "hash d = hash e" by auto
    with inj that S sub have "d = e" by (auto dest: inj_onD)
    with e show "d \<in> subcells r" by simp
  qed simp
  show "unseen hash visited (subcells r \<union> S)
           = unseen hash visited (subcells r) \<union> unseen hash visited' S"
    using eq by (auto simp: unseen_def after)
  show "unseen hash visited (subcells r) \<inter> unseen hash visited' S = {}"
    using eq by (auto simp: unseen_def after)
qed

lemma unseen_below_root:
  assumes inj: "inj_on hash U" and root: "Cell bs rs \<in> U"
    and sub: "\<Union> (subcells ` set rs) \<subseteq> U" and new: "hash (Cell bs rs) \<notin> set visited"
  shows "unseen hash visited (subcells (Cell bs rs))
           = insert (Cell bs rs) (unseen hash (visited @ [hash (Cell bs rs)]) (\<Union> (subcells ` set rs)))"
    and "Cell bs rs \<notin> unseen hash (visited @ [hash (Cell bs rs)]) (\<Union> (subcells ` set rs))"
proof -
  have ne: "hash d \<noteq> hash (Cell bs rs)" if "d \<in> \<Union> (subcells ` set rs)" for d
  proof
    assume "hash d = hash (Cell bs rs)"
    with inj root sub that have "d = Cell bs rs" by (auto dest: inj_onD)
    with that show False using root_not_below [of _ rs bs] by auto
  qed
  show "unseen hash visited (subcells (Cell bs rs))
           = insert (Cell bs rs) (unseen hash (visited @ [hash (Cell bs rs)]) (\<Union> (subcells ` set rs)))"
    using ne new by (auto simp: unseen_def)
  show "Cell bs rs \<notin> unseen hash (visited @ [hash (Cell bs rs)]) (\<Union> (subcells ` set rs))"
    by (auto simp: unseen_def)
qed

lemma collectRefs_counts:
  assumes inj: "inj_on hash U"
    and each: "\<And>r visited skipRoot. r \<in> set rs \<Longrightarrow> settled hash U visited (size r) \<Longrightarrow>
                 counts_unseen hash r visited skipRoot (collectCellStats hash r visited skipRoot)"
    and sub: "\<Union> (subcells ` set rs) \<subseteq> U"
    and settled: "\<forall>r \<in> set rs. settled hash U visited (size r)"
  shows "fst (collectRefs hash rs visited b n)
           = (b + (\<Sum>d \<in> unseen hash visited (\<Union> (subcells ` set rs)). bit_length d),
              n + int (card (unseen hash visited (\<Union> (subcells ` set rs)))))
       \<and> set (snd (collectRefs hash rs visited b n))
           = set visited \<union> hash ` \<Union> (subcells ` set rs)"
  using each sub settled
proof (induction rs arbitrary: visited b n)
  case Nil
  show ?case by (simp add: unseen_def)
next
  case (Cons r rs)
  obtain st v1 where call: "collectCellStats hash r visited False = (st, v1)"
    by (cases "collectCellStats hash r visited False")
  let ?R = "unseen hash visited (subcells r)"
  let ?S = "\<Union> (subcells ` set rs)"
  from Cons.prems(2) have subr: "subcells r \<subseteq> U" and subS: "?S \<subseteq> U" by auto
  from Cons.prems(3) have "settled hash U visited (size r)" by simp
  with Cons.prems(1) [of r visited False] call
  have st: "st = \<lparr>bits = (\<Sum>d \<in> ?R. bit_length d), cells = int (card ?R)\<rparr>"
    and v1: "set v1 = set visited \<union> hash ` subcells r"
    by (simp_all add: counts_unseen_def Let_def)
  have settled1: "\<forall>r' \<in> set rs. settled hash U v1 (size r')"
    using Cons.prems(3) settled_after_subtree [OF inj subr _ v1] by simp
  have each1: "\<And>r' visited skipRoot. r' \<in> set rs \<Longrightarrow> settled hash U visited (size r') \<Longrightarrow>
      counts_unseen hash r' visited skipRoot (collectCellStats hash r' visited skipRoot)"
    using Cons.prems(1) by simp
  note IH = Cons.IH [OF each1 subS settled1, of "b + bits st" "n + cells st"]
  have fin: "finite ?R" "finite (unseen hash v1 ?S)"
    using finite_subset [OF unseen_subset] by (simp_all add: finite_subcells)
  have split: "unseen hash visited (\<Union> (subcells ` set (r # rs))) = ?R \<union> unseen hash v1 ?S"
    using unseen_after_subtree(1) [OF inj subr subS v1] by simp
  have disj: "?R \<inter> unseen hash v1 ?S = {}"
    by (rule unseen_after_subtree(2) [OF inj subr subS v1])
  have sum: "(\<Sum>d \<in> unseen hash visited (\<Union> (subcells ` set (r # rs))). bit_length d)
               = (\<Sum>d \<in> ?R. bit_length d) + (\<Sum>d \<in> unseen hash v1 ?S. bit_length d)"
    unfolding split by (rule sum.union_disjoint [OF fin disj])
  have card: "card (unseen hash visited (\<Union> (subcells ` set (r # rs))))
               = card ?R + card (unseen hash v1 ?S)"
    unfolding split by (rule card_Un_disjoint [OF fin disj])
  from IH show ?case
    by (simp only: collectRefs.simps call prod.case st StorageStats.simps sum card v1)
       (auto simp: algebra_simps)
qed

lemma collectCellStats_counts:
  assumes inj: "inj_on hash U"
  shows "subcells c \<subseteq> U \<Longrightarrow> settled hash U visited (size c) \<Longrightarrow>
         counts_unseen hash c visited skipRoot (collectCellStats hash c visited skipRoot)"
proof (induction c arbitrary: visited skipRoot)
  case (Cell bs rs)
  let ?c = "Cell bs rs"
  let ?S = "\<Union> (subcells ` set rs)"
  from Cell.prems(1) have root: "?c \<in> U" and subS: "?S \<subseteq> U" by auto
  show ?case
  proof (cases "hash ?c \<in> set visited")
    case True
    with Cell.prems(2) root have "hash ` subcells ?c \<subseteq> set visited"
      unfolding settled_def by blast
    then have "unseen hash visited (subcells ?c) = {}" and "set visited \<union> hash ` subcells ?c = set visited"
      by (auto simp: unseen_def)
    with True show ?thesis by (simp add: counts_unseen_def Let_def del: subcells.simps)
  next
    case False
    let ?v0 = "visited @ [hash ?c]"
    let ?N = "unseen hash ?v0 ?S"
    have each: "\<And>r visited skipRoot. r \<in> set rs \<Longrightarrow> settled hash U visited (size r) \<Longrightarrow>
        counts_unseen hash r visited skipRoot (collectCellStats hash r visited skipRoot)"
      using Cell.IH subS by blast
    have settled0: "\<forall>r \<in> set rs. settled hash U ?v0 (size r)"
      using settled_below_root [OF inj root Cell.prems(2)] by blast
    note refs = collectRefs_counts [OF inj each subS settled0]
    have new: "unseen hash visited (subcells ?c) = insert ?c ?N" and notin: "?c \<notin> ?N"
      using unseen_below_root [OF inj root subS False] by blast+
    have fin: "finite ?N"
      using finite_subset [OF unseen_subset] by (simp add: finite_subcells)
    from fin notin have sum: "(\<Sum>d \<in> insert ?c ?N. bit_length d) = int (length bs) + (\<Sum>d \<in> ?N. bit_length d)"
      and card: "int (card (insert ?c ?N)) = 1 + int (card ?N)" by simp_all
    obtain b n v' where run: "collectRefs hash rs ?v0 (if skipRoot then 0 else int (length bs))
        (if skipRoot then 0 else 1) = ((b, n), v')"
      by (metis surj_pair)
    from refs [of "if skipRoot then 0 else int (length bs)" "if skipRoot then 0 else 1"] run
    have b: "b = (if skipRoot then 0 else int (length bs)) + (\<Sum>d \<in> ?N. bit_length d)"
      and n: "n = (if skipRoot then 0 else 1) + int (card ?N)"
      and v': "set v' = set ?v0 \<union> hash ` ?S" by simp_all
    from False run have result: "collectCellStats hash ?c visited skipRoot = (\<lparr>bits = b, cells = n\<rparr>, v')"
      by (simp add: Let_def)
    show ?thesis
      unfolding counts_unseen_def Let_def result new
      using False by (auto simp: sum card b n v')
  qed
next
  case (DictCell es)
  have "unseen hash visited (subcells (DictCell es))
          = (if hash (DictCell es) \<in> set visited then {} else {DictCell es})"
    by (auto simp: unseen_def)
  then show ?case
    by (auto simp: counts_unseen_def Let_def)
qed

lemma subcells_refs_permuted:
  assumes "set rs' = set rs"
  shows "(\<Sum>d \<in> subcells (Cell bs rs'). bit_length d) = (\<Sum>d \<in> subcells (Cell bs rs). bit_length d)"
    and "card (subcells (Cell bs rs')) = card (subcells (Cell bs rs))"
proof -
  have fin: "finite (\<Union> (subcells ` set xs))" for xs
    by (simp add: finite_subcells)
  have notin: "Cell bs xs \<notin> \<Union> (subcells ` set xs)" for xs
    using root_not_below [of _ xs bs] by auto
  have sum: "(\<Sum>d \<in> subcells (Cell bs xs). bit_length d)
               = int (length bs) + (\<Sum>d \<in> \<Union> (subcells ` set xs). bit_length d)" for xs
    using fin [of xs] notin [of xs] by simp
  have card: "card (subcells (Cell bs xs)) = Suc (card (\<Union> (subcells ` set xs)))" for xs
    using fin [of xs] notin [of xs] by simp
  show "(\<Sum>d \<in> subcells (Cell bs rs'). bit_length d) = (\<Sum>d \<in> subcells (Cell bs rs). bit_length d)"
    by (simp only: sum assms)
  show "card (subcells (Cell bs rs')) = card (subcells (Cell bs rs))"
    by (simp only: card assms)
qed

lemma collectCellStats_fresh:
  assumes "inj_on hash (subcells c)"
  shows "counts_unseen hash c [] skipRoot (collectCellStats hash c [] skipRoot)"
  by (rule collectCellStats_counts [OF assms subset_refl settled_Nil])

text \<open>
  C5. For a tree of ordinary cells whose cells have pairwise different hashes, and a fresh
  empty \<open>visited\<close>, \<open>collectCellStats\<close> returns the sum of the bit lengths and the number of
  the distinct cells of the tree, each counted once however often it occurs (less the root's
  own bits and cell when \<open>skipRoot\<close> is set), and leaves in \<open>visited\<close> the hashes of those
  cells. The statistics are the same for any reordering of the root's references. A cell whose
  hash is in \<open>visited\<close> already contributes no bits and no cells, and \<open>visited\<close> comes back
  unchanged: nothing below it is visited from there.
\<close>

theorem collectCellStats_counts_once:
  assumes "plain (Cell bs rs)" and "inj_on hash (subcells (Cell bs rs))"
    and "mset rs' = mset rs" and "inj_on hash (subcells (Cell bs rs'))"
  shows "fst (collectCellStats hash (Cell bs rs) [] skipRoot)
           = \<lparr>bits = (\<Sum>d \<in> subcells (Cell bs rs). bit_length d)
                        - (if skipRoot then int (length bs) else 0),
              cells = int (card (subcells (Cell bs rs))) - (if skipRoot then 1 else 0)\<rparr>
       \<and> set (snd (collectCellStats hash (Cell bs rs) [] skipRoot)) = hash ` subcells (Cell bs rs)
       \<and> fst (collectCellStats hash (Cell bs rs') [] skipRoot)
           = fst (collectCellStats hash (Cell bs rs) [] skipRoot)
       \<and> (hash c \<in> set visited \<longrightarrow>
            collectCellStats hash c visited skipRoot = (\<lparr>bits = 0, cells = 0\<rparr>, visited))"
proof -
  have fresh: "fst (collectCellStats hash (Cell bs xs) [] skipRoot)
           = \<lparr>bits = (\<Sum>d \<in> subcells (Cell bs xs). bit_length d)
                        - (if skipRoot then int (length bs) else 0),
              cells = int (card (subcells (Cell bs xs))) - (if skipRoot then 1 else 0)\<rparr>
       \<and> set (snd (collectCellStats hash (Cell bs xs) [] skipRoot)) = hash ` subcells (Cell bs xs)"
    if "inj_on hash (subcells (Cell bs xs))" for xs
    using collectCellStats_fresh [OF that, of skipRoot]
    by (simp add: counts_unseen_def unseen_Nil Let_def del: subcells.simps collectCellStats.simps)
  from assms(3) have "set rs' = set rs" by (rule mset_eq_setD)
  then have same: "fst (collectCellStats hash (Cell bs rs') [] skipRoot)
           = fst (collectCellStats hash (Cell bs rs) [] skipRoot)"
    by (simp only: fresh [OF assms(2)] fresh [OF assms(4)] subcells_refs_permuted [of rs' rs bs])
  have seen: "collectCellStats hash c visited skipRoot = (\<lparr>bits = 0, cells = 0\<rparr>, visited)"
    if "hash c \<in> set visited"
    using that by (cases c) (simp_all add: Let_def)
  from fresh [OF assms(2)] same seen show ?thesis by blast
qed

lemmas sample_tree_defs = bits_text_def shared_subtree_def left_branch_def right_branch_def

theorem collectCellStats_counts_once_witness:
  "plain (Cell [] [left_branch, right_branch])
   \<and> inj_on bits_text (subcells (Cell [] [left_branch, right_branch]))
   \<and> mset [right_branch, left_branch] = mset [left_branch, right_branch]
   \<and> inj_on bits_text (subcells (Cell [] [right_branch, left_branch]))
   \<and> fst (collectCellStats bits_text (Cell [] [left_branch, right_branch]) [] False)
     = \<lparr>bits = 7, cells = 5\<rparr>
   \<and> fst (collectCellStats bits_text (Cell [] [right_branch, left_branch]) [] False)
     = \<lparr>bits = 7, cells = 5\<rparr>
   \<and> collectCellStats bits_text shared_subtree [''11'', ''000''] False
     = (\<lparr>bits = 0, cells = 0\<rparr>, [''11'', ''000''])"
proof -
  have tree: "plain (Cell [] [left_branch, right_branch])"
    by (simp add: sample_tree_defs)
  have hashes: "inj_on bits_text (subcells (Cell [] [left_branch, right_branch]))"
    "inj_on bits_text (subcells (Cell [] [right_branch, left_branch]))"
    by (simp_all add: inj_on_def sample_tree_defs)
  have swapped: "mset [right_branch, left_branch] = mset [left_branch, right_branch]"
    by simp
  have seen: "bits_text shared_subtree \<in> set [''11'', ''000'']"
    by (simp add: sample_tree_defs)
  from collectCellStats_counts_once [OF tree hashes(1) swapped hashes(2),
      of False shared_subtree "[''11'', ''000'']"] seen
  have "fst (collectCellStats bits_text (Cell [] [right_branch, left_branch]) [] False)
          = fst (collectCellStats bits_text (Cell [] [left_branch, right_branch]) [] False)"
    and "collectCellStats bits_text shared_subtree [''11'', ''000''] False
          = (\<lparr>bits = 0, cells = 0\<rparr>, [''11'', ''000''])"
    by blast+
  moreover have "fst (collectCellStats bits_text (Cell [] [left_branch, right_branch]) [] False)
     = \<lparr>bits = 7, cells = 5\<rparr>"
    by (simp add: sample_tree_defs Let_def)
  ultimately show ?thesis using tree hashes swapped by simp
qed

end
